theory Spec2Isabelle
  imports Main "HOL-Library.Sublist"
begin

section \<open>JavaScript strings and values\<close>

text \<open>
  A JavaScript string is modelled as a \<open>string\<close> (a list of 8-bit characters).  The
  addresses, hex data and messages the code handles are ASCII; the one character of the
  source outside ASCII (the cross mark U+274C of one error message) is written as its three
  UTF-8 bytes.  \<open>toLowerCase\<close> and \<open>toUpperCase\<close> change the ASCII letters only.
\<close>

definition toLowerCaseChar :: "char \<Rightarrow> char" where
  "toLowerCaseChar c =
     (let n = (of_char c :: nat) in if 65 \<le> n \<and> n \<le> 90 then char_of (n + 32) else c)"

definition toUpperCaseChar :: "char \<Rightarrow> char" where
  "toUpperCaseChar c =
     (let n = (of_char c :: nat) in if 97 \<le> n \<and> n \<le> 122 then char_of (n - 32) else c)"

definition toLowerCase :: "string \<Rightarrow> string" where
  "toLowerCase s = map toLowerCaseChar s"

text \<open>\<open>String.prototype.includes\<close> (named \<open>includesStr\<close>) and \<open>startsWith\<close>.\<close>

fun includesStr :: "string \<Rightarrow> string \<Rightarrow> bool" where
  "includesStr [] sub = (sub = [])"
| "includesStr (c # cs) sub = (prefix sub (c # cs) \<or> includesStr cs sub)"

definition startsWith :: "string \<Rightarrow> string \<Rightarrow> bool" where
  "startsWith s p = prefix p s"

text \<open>
  A JavaScript value, as far as the code inspects one: the values that are thrown and
  caught (\<open>unknown\<close> in the source) and their properties.  \<open>JObj True fs\<close> is an object
  that is \<open>instanceof Error\<close>, \<open>JObj False fs\<close> any other object; \<open>fs\<close> are its
  properties.  Such a value is a finite tree: an error whose \<open>cause\<close> chain is cyclic is
  not modelled.
\<close>

datatype jsval =
    JUndefined
  | JNull
  | JBool bool
  | JNum int
  | JStr string
  | JObj bool "(string \<times> jsval) list"

definition getProp :: "(string \<times> jsval) list \<Rightarrow> string \<Rightarrow> jsval" where
  "getProp fs k = (case map_of fs k of None \<Rightarrow> JUndefined | Some v \<Rightarrow> v)"

fun truthy :: "jsval \<Rightarrow> bool" where
  "truthy JUndefined = False"
| "truthy JNull = False"
| "truthy (JBool b) = b"
| "truthy (JNum n) = (n \<noteq> 0)"
| "truthy (JStr s) = (s \<noteq> [])"
| "truthy (JObj b fs) = True"

text \<open>\<open>a || b\<close> on values.\<close>

definition jsOr :: "jsval \<Rightarrow> jsval \<Rightarrow> jsval" where
  "jsOr a b = (if truthy a then a else b)"

function showNat :: "nat \<Rightarrow> string" where
  "showNat n =
     (if n < 10 then [char_of (48 + n)] else showNat (n div 10) @ [char_of (48 + n mod 10)])"
  by pat_completeness auto
termination
  by (relation "measure (\<lambda>n. n)") auto

text \<open>
  \<open>String(v)\<close>, also what a template literal does to \<open>v\<close>.  An object is taken to have
  the default \<open>toString\<close>.
\<close>

fun toStringJS :: "jsval \<Rightarrow> string" where
  "toStringJS JUndefined = ''undefined''"
| "toStringJS JNull = ''null''"
| "toStringJS (JBool b) = (if b then ''true'' else ''false'')"
| "toStringJS (JNum n) = (if n < 0 then ''-'' @ showNat (nat (- n)) else showNat (nat n))"
| "toStringJS (JStr s) = s"
| "toStringJS (JObj b fs) = ''[object Object]''"

text \<open>\<open>new Error(message)\<close>.\<close>

definition newError :: "string \<Rightarrow> jsval" where
  "newError msg = JObj True [(''message'', JStr msg)]"

text \<open>
  The idiom \<open>error instanceof Error ? error.message : String(error)\<close> of the source.  The
  \<open>message\<close> of an \<open>Error\<close> is read as a string.
\<close>

fun errorMessageOf :: "jsval \<Rightarrow> string" where
  "errorMessageOf (JObj True fs) = toStringJS (getProp fs ''message'')"
| "errorMessageOf v = toStringJS v"

section \<open>Addresses (viem)\<close>

text \<open>
  \<open>isAddress\<close>, \<open>getAddress\<close> and \<open>zeroAddress\<close> are imported from viem.  They
  are modelled after that library: an address matches \<open>^0x[a-fA-F0-9]{40}$\<close>;
  \<open>getAddress\<close> throws on anything else and returns the EIP-55 checksum spelling, which
  upper-cases the hex letter at position \<open>i\<close> when nibble \<open>i\<close> of the Keccak-256 hash of
  the lower-case hex digits is at least 8.  The hash function and the error object viem
  throws are parameters (the record \<open>lib\<close> below).
\<close>

definition isHexChar :: "char \<Rightarrow> bool" where
  "isHexChar c =
     (let n = (of_char c :: nat)
      in (48 \<le> n \<and> n \<le> 57) \<or> (65 \<le> n \<and> n \<le> 70) \<or> (97 \<le> n \<and> n \<le> 102))"

definition addressRegexTest :: "string \<Rightarrow> bool" where
  "addressRegexTest a = (length a = 42 \<and> take 2 a = ''0x'' \<and> list_all isHexChar (drop 2 a))"

definition hashNibble :: "nat list \<Rightarrow> nat \<Rightarrow> nat" where
  "hashNibble hash i =
     (let b = (if i div 2 < length hash then (hash ! (i div 2)) mod 256 else 0)
      in if even i then b div 16 else b mod 16)"

definition checksumAddress :: "(string \<Rightarrow> nat list) \<Rightarrow> string \<Rightarrow> string" where
  "checksumAddress keccak a =
     (let hexAddress = toLowerCase (drop 2 a); hash = keccak hexAddress
      in ''0x'' @ map (\<lambda>i. if i < 40 \<and> 8 \<le> hashNibble hash i
                            then toUpperCaseChar (hexAddress ! i) else hexAddress ! i)
                      [0..<length hexAddress])"

definition zeroAddress :: string where
  "zeroAddress = ''0x0000000000000000000000000000000000000000''"


text \<open>
  The functions of viem, of \<open>@whoislewys/predict-deterministic-address\<close> and of the
  JavaScript runtime that the code calls and whose results it only passes on.
\<close>

record signatureParts =
  sig_r :: string
  sig_s :: string
  sig_v :: "int option"
  sig_yParity :: "int option"

record lib =
  keccak256 :: "string \<Rightarrow> nat list"
  invalidAddressError :: "string \<Rightarrow> jsval"
  parseErc6492Signature :: "string \<Rightarrow> jsval + string"
  parseSignature :: "string \<Rightarrow> jsval + signatureParts"
  bigInt :: "string \<Rightarrow> jsval + int"
  keccak256Hex :: "string \<Rightarrow> string"
  encodePacked :: "string \<Rightarrow> string \<Rightarrow> string"
  encodeAbiParameters :: "string \<Rightarrow> string"
  predictCreate3Address :: "string \<Rightarrow> string \<Rightarrow> string"

definition isAddress :: "lib \<Rightarrow> string \<Rightarrow> bool" where
  "isAddress l a =
     (addressRegexTest a \<and> (toLowerCase a = a \<or> checksumAddress (keccak256 l) a = a))"

definition getAddress :: "lib \<Rightarrow> string \<Rightarrow> jsval + string" where
  "getAddress l a =
     (if addressRegexTest a then Inr (checksumAddress (keccak256 l) a)
      else Inl (invalidAddressError l a))"

section \<open>The signer, the trace of a run, and programs\<close>

text \<open>
  A contract call as the code hands it to \<open>readContract\<close> and \<open>writeContract\<close>.  The
  \<open>abi\<close> argument is a constant table of the source and is left out.
\<close>

datatype arg = AString string | ABigInt int | ANumber int

record call =
  address :: string
  functionName :: string
  args :: "arg list"

datatype abi_value = VString string | VBool bool

text \<open>
  What a run does to the outside world, in order, each call with its outcome (\<open>Inl\<close> the
  value it threw, \<open>Inr\<close> the value it returned), and each wait on a timer with its length in
  milliseconds.
\<close>

datatype event =
    EGetCode string "jsval + string option"
  | ERead call "jsval + abi_value"
  | EWrite call "jsval + string"
  | EWait string "jsval + string"
  | ESleep int

text \<open>
  The \<open>FacilitatorEvmSigner\<close>: every method is a function of a state of the world \<open>'w\<close>
  that answers (or throws) and gives the next state.  \<open>readContract\<close> returns
  \<open>unknown\<close>, which the code casts to the type parameter \<open>T\<close> of
  \<open>readContractWithRetry<T>\<close>; the two instances of \<open>T\<close> in the source are \<open>string\<close> and
  \<open>boolean\<close>, and the signer has one typed reader for each.  \<open>getCode\<close> returns the
  bytecode or \<open>undefined\<close>; \<open>waitForTransactionReceipt\<close> returns the receipt's
  \<open>status\<close>.
\<close>

record 'w signer =
  getCode :: "string \<Rightarrow> 'w \<Rightarrow> (jsval + string option) \<times> 'w"
  readContractString :: "call \<Rightarrow> 'w \<Rightarrow> (jsval + string) \<times> 'w"
  readContractBool :: "call \<Rightarrow> 'w \<Rightarrow> (jsval + bool) \<times> 'w"
  writeContract :: "call \<Rightarrow> 'w \<Rightarrow> (jsval + string) \<times> 'w"
  waitForTransactionReceipt :: "string \<Rightarrow> 'w \<Rightarrow> (jsval + string) \<times> 'w"
  getAddresses :: "'w \<Rightarrow> string list"

record settleResponse =
  success :: bool
  transaction :: string
  response_network :: string
  payer :: string

text \<open>
  A statement of the source either completes with a value, throws, or returns from
  \<open>settleWithRefundHelper\<close> (\<open>Return None\<close> is \<open>return null\<close>).  A program maps the state
  of the world to its outcome, the next state and the events it caused.
\<close>

datatype abrupt = Throw jsval | Return "settleResponse option"

type_synonym ('w, 'a) prog = "'w \<Rightarrow> (abrupt + 'a) \<times> 'w \<times> event list"

definition succeed :: "'a \<Rightarrow> ('w, 'a) prog" where
  "succeed a w = (Inr a, w, [])"

definition throw :: "jsval \<Rightarrow> ('w, 'a) prog" where
  "throw e w = (Inl (Throw e), w, [])"

definition returnWith :: "settleResponse option \<Rightarrow> ('w, 'a) prog" where
  "returnWith r w = (Inl (Return r), w, [])"

definition andThen :: "('w, 'a) prog \<Rightarrow> ('a \<Rightarrow> ('w, 'b) prog) \<Rightarrow> ('w, 'b) prog" where
  "andThen m f w =
     (case m w of
        (Inl x, w1, e1) \<Rightarrow> (Inl x, w1, e1)
      | (Inr a, w1, e1) \<Rightarrow> (case f a w1 of (r, w2, e2) \<Rightarrow> (r, w2, e1 @ e2)))"

text \<open>\<open>try { m } catch (error) { h error }\<close>: a \<open>return\<close> inside \<open>m\<close> is not caught.\<close>

definition tryCatch :: "('w, 'a) prog \<Rightarrow> (jsval \<Rightarrow> ('w, 'a) prog) \<Rightarrow> ('w, 'a) prog" where
  "tryCatch m h w =
     (case m w of
        (Inl (Throw e), w1, e1) \<Rightarrow> (case h e w1 of (r, w2, e2) \<Rightarrow> (r, w2, e1 @ e2))
      | (Inl (Return r), w1, e1) \<Rightarrow> (Inl (Return r), w1, e1)
      | (Inr a, w1, e1) \<Rightarrow> (Inr a, w1, e1))"

text \<open>A pure computation that may throw.\<close>

definition liftE :: "jsval + 'a \<Rightarrow> ('w, 'a) prog" where
  "liftE r = (case r of Inl e \<Rightarrow> throw e | Inr a \<Rightarrow> succeed a)"

text \<open>The calls of the signer, each logged with its outcome.\<close>

definition getCodeOp :: "'w signer \<Rightarrow> string \<Rightarrow> ('w, string option) prog" where
  "getCodeOp signer a w =
     (case getCode signer a w of (r, w1) \<Rightarrow> (map_sum Throw id r, w1, [EGetCode a r]))"

definition writeContractOp :: "'w signer \<Rightarrow> call \<Rightarrow> ('w, string) prog" where
  "writeContractOp signer c w =
     (case writeContract signer c w of (r, w1) \<Rightarrow> (map_sum Throw id r, w1, [EWrite c r]))"

definition waitForTransactionReceiptOp :: "'w signer \<Rightarrow> string \<Rightarrow> ('w, string) prog" where
  "waitForTransactionReceiptOp signer h w =
     (case waitForTransactionReceipt signer h w of
        (r, w1) \<Rightarrow> (map_sum Throw id r, w1, [EWait h r]))"

text \<open>\<open>await new Promise(resolve => setTimeout(resolve, delayMs))\<close>.\<close>

definition sleep :: "int \<Rightarrow> ('w, unit) prog" where
  "sleep delayMs w = (Inr (), w, [ESleep delayMs])"

text \<open>
  One \<open>signer.readContract(args)\<close>, at result type \<open>string\<close> or \<open>boolean\<close>.  The
  outcome stays a sum, since \<open>readContractWithRetry\<close> catches it.
\<close>

type_synonym ('w, 'a) reader = "call \<Rightarrow> 'w \<Rightarrow> (jsval + 'a) \<times> 'w \<times> event list"

definition readContractOp ::
  "('a \<Rightarrow> abi_value) \<Rightarrow> (call \<Rightarrow> 'w \<Rightarrow> (jsval + 'a) \<times> 'w) \<Rightarrow> ('w, 'a) reader" where
  "readContractOp tag f c w =
     (case f c w of (r, w1) \<Rightarrow> (r, w1, [ERead c (map_sum id tag r)]))"

definition readString :: "'w signer \<Rightarrow> ('w, string) reader" where
  "readString signer = readContractOp VString (readContractString signer)"

definition readBool :: "'w signer \<Rightarrow> ('w, bool) reader" where
  "readBool signer = readContractOp VBool (readContractBool signer)"

section \<open>ChainReader: the retrying read\<close>

lemma size_getProp: "size (getProp fs k) < Suc (size_list (size_prod (\<lambda>x. 0) size) fs)"
  by (induction fs) (auto simp: getProp_def)

function isRateLimitError :: "jsval \<Rightarrow> bool" where
  "isRateLimitError (JObj b err) =
     (if getProp err ''status'' = JNum 429 then True
      else if (case jsOr (jsOr (getProp err ''message'') (getProp err ''details'')) (JStr [])
               of JStr message \<Rightarrow> includesStr (toLowerCase message) ''rate limit''
                | _ \<Rightarrow> False)
      then True
      else if truthy (getProp err ''cause'') then
        (if isRateLimitError (getProp err ''cause'') then True else False)
      else False)"
| "isRateLimitError JUndefined = False"
| "isRateLimitError JNull = False"
| "isRateLimitError (JBool b) = False"
| "isRateLimitError (JNum n) = False"
| "isRateLimitError (JStr s) = False"
  by pat_completeness auto
termination
  by (relation "measure size") (auto simp: size_getProp)

text \<open>
  The loop \<open>for (let attempt = 0; attempt <= maxRetries; attempt++)\<close> of
  \<open>readContractWithRetry\<close>, from \<open>attempt\<close> on; \<open>lastError\<close> is \<open>undefined\<close> until an
  attempt has failed.
\<close>

function readContractLoop ::
  "('w, 'a) reader \<Rightarrow> call \<Rightarrow> int \<Rightarrow> int \<Rightarrow> jsval \<Rightarrow> ('w, 'a) prog" where
  "readContractLoop rd a maxRetries attempt lastError w =
     (if attempt \<le> maxRetries then
        (case rd a w of
           (Inr v, w1, e1) \<Rightarrow> (Inr v, w1, e1)
         | (Inl error, w1, e1) \<Rightarrow>
             if \<not> isRateLimitError error then (Inl (Throw error), w1, e1)
             else if attempt \<ge> maxRetries then (Inl (Throw error), w1, e1)
             else
               (case readContractLoop rd a maxRetries (attempt + 1) error w1 of
                  (r, w2, e2) \<Rightarrow>
                    (r, w2, e1 @ ESleep (min (1000 * 2 ^ nat attempt) 16000) # e2)))
      else (Inl (Throw lastError), w, []))"
  by pat_completeness auto
termination
  by (relation "measure (\<lambda>(rd, a, maxRetries, attempt, lastError, w). nat (maxRetries + 1 - attempt))")
     auto

definition readContractWithRetry :: "('w, 'a) reader \<Rightarrow> call \<Rightarrow> int \<Rightarrow> ('w, 'a) prog" where
  "readContractWithRetry rd a maxRetries = readContractLoop rd a maxRetries 0 JUndefined"

section \<open>The payment data\<close>

record erc3009Authorization =
  auth_from :: string
  auth_to :: string
  auth_value :: string
  auth_validAfter :: string
  auth_validBefore :: string
  auth_nonce :: string

text \<open>
  \<open>paymentPayload.payload\<close>, cast by the source to an object with an optional
  \<open>authorization\<close> and an optional \<open>signature\<close>.
\<close>

record exactPayload =
  authorization :: "erc3009Authorization option"
  signature :: "string option"

record refundExtensionInfo =
  factoryAddress :: "string option"
  merchantPayouts :: "(string \<rightharpoonup> string) option"

record refundExtension =
  info :: "refundExtensionInfo option"

record paymentPayload =
  extensions :: "(string \<rightharpoonup> refundExtension) option"
  payload :: exactPayload

record paymentRequirements =
  payTo :: string
  asset :: string
  network :: string

definition REFUND_EXTENSION_KEY :: string where
  "REFUND_EXTENSION_KEY = ''refund''"


section \<open>SettlementExecutor: \<open>settleWithRefundHelper\<close>, step by step\<close>

text \<open>\<open>extractRefundInfo\<close>: the factory address and the payouts map, or \<open>null\<close>.\<close>

definition extractRefundInfo ::
  "lib \<Rightarrow> paymentPayload \<Rightarrow> paymentRequirements \<Rightarrow> (string \<times> (string \<rightharpoonup> string)) option" where
  "extractRefundInfo l paymentPayload requirements =
     (case (case extensions paymentPayload of None \<Rightarrow> None
            | Some exts \<Rightarrow> exts REFUND_EXTENSION_KEY) of
        None \<Rightarrow> None
      | Some extension \<Rightarrow>
          (case info extension of
             None \<Rightarrow> None
           | Some i \<Rightarrow>
               (case factoryAddress i of
                  None \<Rightarrow> None
                | Some fa \<Rightarrow>
                    if fa = [] then None
                    else if \<not> isAddress l fa then None
                    else Some (fa, case merchantPayouts i of None \<Rightarrow> Map.empty | Some m \<Rightarrow> m))))"

text \<open>
  \<open>!code || code === "0x" || code.length <= 2\<close>, and its opposite
  \<open>code && code !== "0x" && code.length > 2\<close>.
\<close>

definition noCode :: "string option \<Rightarrow> bool" where
  "noCode code = (case code of None \<Rightarrow> True | Some c \<Rightarrow> c = [] \<or> c = ''0x'' \<or> length c \<le> 2)"

definition hasCode :: "string option \<Rightarrow> bool" where
  "hasCode code = (case code of None \<Rightarrow> False | Some c \<Rightarrow> c \<noteq> [] \<and> c \<noteq> ''0x'' \<and> length c > 2)"

text \<open>VerifyFactory: the \<open>try\<close>/\<open>catch\<close> around the code probe of the factory.\<close>

definition checkFactory :: "lib \<Rightarrow> 'w signer \<Rightarrow> string \<Rightarrow> ('w, unit) prog" where
  "checkFactory l signer factoryAddr =
     tryCatch
       (andThen (liftE (getAddress l factoryAddr)) (\<lambda>fa.
        andThen (getCodeOp signer fa) (\<lambda>factoryCode.
          if noCode factoryCode then
            throw (newError (''Factory contract does not exist at '' @ factoryAddr
                              @ ''. Invalid refund extension.''))
          else succeed ())))
       (\<lambda>error. throw (newError (''Failed to check factory contract: '' @ errorMessageOf error)))"

definition proxyCall :: "string \<Rightarrow> string \<Rightarrow> call" where
  "proxyCall proxyAddress fn = \<lparr>address = proxyAddress, functionName = fn, args = []\<rparr>"

text \<open>
  The merchant payout: read from the proxy together with the escrow when the relay exists
  (any failure there returns \<open>null\<close>), else looked up in the extension's map under the
  proxy address and then under its lower-case spelling.
\<close>

definition lookupMerchantPayout :: "(string \<rightharpoonup> string) \<Rightarrow> string \<Rightarrow> string option" where
  "lookupMerchantPayout payouts proxyAddress =
     (let proxyAddressLower = toLowerCase proxyAddress
      in case payouts proxyAddress of
           None \<Rightarrow> payouts proxyAddressLower
         | Some m \<Rightarrow> if m \<noteq> [] then Some m else payouts proxyAddressLower)"

definition notARefundPayout :: "string option \<Rightarrow> bool" where
  "notARefundPayout merchantPayout =
     (case merchantPayout of None \<Rightarrow> True | Some m \<Rightarrow> m = [] \<or> m = zeroAddress)"

definition resolveMerchant ::
  "'w signer \<Rightarrow> (string \<rightharpoonup> string) \<Rightarrow> string \<Rightarrow> bool \<Rightarrow> ('w, string \<times> string option) prog" where
  "resolveMerchant signer payouts proxyAddress relayExists =
     andThen
       (if relayExists then
          tryCatch
            (andThen (readContractWithRetry (readString signer)
                        (proxyCall proxyAddress ''MERCHANT_PAYOUT'') 5) (\<lambda>merchantPayout.
             andThen (readContractWithRetry (readString signer)
                        (proxyCall proxyAddress ''ESCROW'') 5) (\<lambda>escrowAddress.
             succeed (Some merchantPayout, Some escrowAddress))))
            (\<lambda>error. returnWith None)
        else
          (let merchantPayout = lookupMerchantPayout payouts proxyAddress
           in if notARefundPayout merchantPayout then returnWith None
              else succeed (merchantPayout, None)))
       (\<lambda>(merchantPayout, escrowAddress).
          case merchantPayout of
            None \<Rightarrow> returnWith None
          | Some m \<Rightarrow> if m = [] \<or> m = zeroAddress then returnWith None
                      else succeed (m, escrowAddress))"

text \<open>
  The loop that polls for the code of the new relay:
  \<open>for (let i = 0; i < 5; i++)\<close>, with a wait of \<open>1000 * i\<close> before every probe but the
  first.
\<close>

function pollCode ::
  "'w signer \<Rightarrow> string \<Rightarrow> nat \<Rightarrow> string option \<Rightarrow> ('w, string option) prog" where
  "pollCode signer proxyAddress i deployedCode w =
     (if i < 5 then
        (case getCode signer proxyAddress w of
           (Inl error, w1) \<Rightarrow>
             (Inl (Throw error), w1,
              (if i > 0 then [ESleep (1000 * int i)] else []) @ [EGetCode proxyAddress (Inl error)])
         | (Inr code, w1) \<Rightarrow>
             if hasCode code then
               (Inr code, w1,
                (if i > 0 then [ESleep (1000 * int i)] else []) @ [EGetCode proxyAddress (Inr code)])
             else
               (case pollCode signer proxyAddress (Suc i) code w1 of
                  (r, w2, e2) \<Rightarrow>
                    (r, w2,
                     (if i > 0 then [ESleep (1000 * int i)] else [])
                       @ EGetCode proxyAddress (Inr code) # e2)))
      else (Inr deployedCode, w, []))"
  by pat_completeness auto
termination
  by (relation "measure (\<lambda>(signer, proxyAddress, i, deployedCode, w). 5 - i)") auto

definition insufficientFunds :: "string \<Rightarrow> bool" where
  "insufficientFunds errorString =
     (includesStr errorString ''insufficient funds''
      \<or> includesStr errorString ''exceeds the balance''
      \<or> includesStr errorString ''insufficient balance''
      \<or> includesStr errorString ''the total cost''
      \<or> includesStr errorString ''exceeds the balance of the account'')"

definition addressMismatchMessage :: "string \<Rightarrow> string \<Rightarrow> string" where
  "addressMismatchMessage expectedAddress proxyAddress =
     ''Address mismatch: Factory computed '' @ expectedAddress @ '' but expected ''
       @ proxyAddress @ ''. This may indicate a version or CreateX address mismatch.''"

definition insufficientFundsMessage :: "string \<Rightarrow> string \<Rightarrow> string" where
  "insufficientFundsMessage facilitatorAddress errorMessage =
     ''Failed to deploy relay: Insufficient funds in facilitator account.\<newline>''
     @ ''The facilitator account ('' @ facilitatorAddress
     @ '') does not have enough ETH to pay for gas to deploy the relay contract.\<newline>''
     @ ''Please fund the facilitator account with ETH to cover gas costs.\<newline>''
     @ ''Original error: '' @ errorMessage"

definition deployFailedMessage :: "string \<Rightarrow> string" where
  "deployFailedMessage errorMessage = ''Failed to deploy relay: '' @ errorMessage"

text \<open>
  The \<open>catch\<close> block of the deployment: every failure is thrown again as a new error, an
  insufficient-funds failure with the first address of the signer in the message
  (\<open>signer.getAddresses()[0]\<close>, \<open>undefined\<close> when there is none).
\<close>

definition deployRelayFailed :: "'w signer \<Rightarrow> jsval \<Rightarrow> ('w, 'a) prog" where
  "deployRelayFailed signer error w =
     (let errorMessage = errorMessageOf error;
          errorString = toLowerCase errorMessage
      in if insufficientFunds errorString then
           (let facilitatorAddress =
                  (case getAddresses signer w of [] \<Rightarrow> ''undefined'' | a # rest \<Rightarrow> a)
            in throw (newError (insufficientFundsMessage facilitatorAddress errorMessage)) w)
         else throw (newError (deployFailedMessage errorMessage)) w)"

definition codeNotFoundMessage :: "string \<Rightarrow> string \<Rightarrow> string \<Rightarrow> string" where
  "codeNotFoundMessage proxyAddress txHash actualAddress =
     ''Relay deployment completed but contract code not found at '' @ proxyAddress
     @ ''. Transaction hash: '' @ txHash
     @ ''. Factory computed address: '' @ actualAddress
     @ ''. Expected address: '' @ proxyAddress
     @ ''. This may indicate a CREATE3 deployment issue, timing problem, or address computation mismatch.''"

definition relayAddressCall :: "string \<Rightarrow> string \<Rightarrow> call" where
  "relayAddressCall fa mp = \<lparr>address = fa, functionName = ''getRelayAddress'', args = [AString mp]\<rparr>"

text \<open>
  RelayDeployer, the block \<open>if (!relayExists) { try { ... } catch (error) { ... } }\<close>, in
  three parts.  \<open>getAddress\<close> of the factory and of the merchant payout is evaluated once,
  in \<open>deployRelay\<close>; the source evaluates it again for each later call, with the same
  result.

  After the receipt: the relay's code is polled for; when it has not appeared, the
  factory's address for the merchant is read once more and the failure is thrown; else the
  escrow is read from the relay.
\<close>

definition confirmRelayDeployed ::
  "'w signer \<Rightarrow> string \<Rightarrow> string \<Rightarrow> string \<Rightarrow> string \<Rightarrow> ('w, string option) prog" where
  "confirmRelayDeployed signer fa mp proxyAddress txHash =
     andThen (pollCode signer proxyAddress 0 None) (\<lambda>deployedCode.
     andThen
       (if noCode deployedCode then
          andThen (readContractWithRetry (readString signer) (relayAddressCall fa mp) 5)
            (\<lambda>actualAddress.
               throw (newError (codeNotFoundMessage proxyAddress txHash actualAddress)))
        else succeed ()) (\<lambda>u.
     andThen (readContractWithRetry (readString signer) (proxyCall proxyAddress ''ESCROW'') 5)
       (\<lambda>escrowAddress. succeed (Some escrowAddress))))"

text \<open>The \<open>deployRelay\<close> transaction and its receipt.\<close>

definition submitDeployRelay ::
  "'w signer \<Rightarrow> string \<Rightarrow> string \<Rightarrow> string \<Rightarrow> ('w, string option) prog" where
  "submitDeployRelay signer fa mp proxyAddress =
     andThen (writeContractOp signer
                \<lparr>address = fa, functionName = ''deployRelay'', args = [AString mp]\<rparr>) (\<lambda>txHash.
     andThen (waitForTransactionReceiptOp signer txHash) (\<lambda>status.
       if status \<noteq> ''success'' then
         throw (newError (''Relay deployment transaction failed: '' @ txHash
                           @ ''. Transaction reverted.''))
       else confirmRelayDeployed signer fa mp proxyAddress txHash))"

text \<open>
  The whole block: the factory's own address for the merchant is read and compared with
  the proxy address first; only then is the relay deployed.
\<close>

definition deployRelay ::
  "lib \<Rightarrow> 'w signer \<Rightarrow> string \<Rightarrow> string \<Rightarrow> string \<Rightarrow> ('w, string option) prog" where
  "deployRelay l signer factoryAddr merchantPayout proxyAddress =
     tryCatch
       (andThen (liftE (getAddress l factoryAddr)) (\<lambda>fa.
        andThen (liftE (getAddress l merchantPayout)) (\<lambda>mp.
        andThen (readContractWithRetry (readString signer) (relayAddressCall fa mp) 5)
          (\<lambda>expectedAddress.
             if toLowerCase expectedAddress \<noteq> toLowerCase proxyAddress then
               throw (newError (addressMismatchMessage expectedAddress proxyAddress))
             else submitDeployRelay signer fa mp proxyAddress))))
       (deployRelayFailed signer)"

text \<open>\<open>if (!escrowAddress) throw ...\<close>.\<close>

definition requireEscrow :: "string option \<Rightarrow> ('w, string) prog" where
  "requireEscrow escrowAddress =
     (case escrowAddress of
        None \<Rightarrow> throw (newError ''Internal error: escrowAddress not set after deployment check'')
      | Some e \<Rightarrow>
          if e = [] then
            throw (newError ''Internal error: escrowAddress not set after deployment check'')
          else succeed e)"

text \<open>VerifyMerchantRegistered.\<close>

definition checkMerchantRegistered ::
  "lib \<Rightarrow> 'w signer \<Rightarrow> string \<Rightarrow> string \<Rightarrow> ('w, unit) prog" where
  "checkMerchantRegistered l signer escrowAddress merchantPayout =
     andThen
       (tryCatch
          (andThen (liftE (getAddress l escrowAddress)) (\<lambda>ea.
           andThen (liftE (getAddress l merchantPayout)) (\<lambda>mp.
           readContractWithRetry (readBool signer)
             \<lparr>address = ea, functionName = ''registeredMerchants'', args = [AString mp]\<rparr> 5)))
          (\<lambda>error. throw (newError (''Failed to check merchant registration: ''
                                     @ errorMessageOf error))))
       (\<lambda>isRegistered.
          if \<not> isRegistered then
            throw (newError (''Merchant '' @ merchantPayout
              @ '' is not registered. Please register at https://app.402r.org to enable refund functionality.''))
          else succeed ())"

text \<open>\<open>if (!payload.authorization || !payload.signature) return null\<close>.\<close>

definition extractAuthorization :: "exactPayload \<Rightarrow> ('w, erc3009Authorization \<times> string) prog" where
  "extractAuthorization p =
     (case authorization p of
        None \<Rightarrow> returnWith None
      | Some a \<Rightarrow>
          (case signature p of
             None \<Rightarrow> returnWith None
           | Some s \<Rightarrow> if s = [] then returnWith None else succeed (a, s)))"

definition bindingMismatchMessage :: "string \<Rightarrow> string \<Rightarrow> string" where
  "bindingMismatchMessage authTo proxyAddress =
     ''Authorization 'to' address ('' @ authTo @ '') does not match proxy address (''
       @ proxyAddress @ ''). The ERC3009 signature must be signed with to=proxyAddress.''"

text \<open>VerifyAuthorizationBinding.\<close>

definition verifyAuthorizationBinding ::
  "lib \<Rightarrow> erc3009Authorization \<Rightarrow> string \<Rightarrow> ('w, unit) prog" where
  "verifyAuthorizationBinding l auth proxyAddress =
     andThen (liftE (getAddress l (auth_to auth))) (\<lambda>authTo.
       if authTo \<noteq> proxyAddress then throw (newError (bindingMismatchMessage authTo proxyAddress))
       else succeed ())"

definition tokenMismatchMessage :: "string \<Rightarrow> string \<Rightarrow> string" where
  "tokenMismatchMessage proxyTokenNormalized paymentAssetNormalized =
     [CHR 0xE2, CHR 0x9D, CHR 0x8C] @ '' ADDRESS MISMATCH: Proxy has '' @ proxyTokenNormalized
       @ '' but payment requires '' @ paymentAssetNormalized @ ''. ''
       @ ''The proxy was deployed with the wrong address. ''
       @ ''This causes transferWithAuthorization to fail. ''
       @ ''Solution: Redeploy the proxy with the correct address: '' @ paymentAssetNormalized"

definition escrowMismatchMessage :: "string \<Rightarrow> string \<Rightarrow> string" where
  "escrowMismatchMessage proxyEscrow escrowAddress =
     ''Proxy ESCROW mismatch: proxy reports '' @ proxyEscrow @ '' but we read ''
       @ escrowAddress @ '' earlier''"

definition immutablesFailedMessage :: "string \<Rightarrow> string" where
  "immutablesFailedMessage m =
     ''Failed to read proxy immutables. This may indicate a proxy deployment issue. Error: '' @ m"

text \<open>VerifyProxyConsistency: the \<open>try\<close>/\<open>catch\<close> around the reads of TOKEN and ESCROW.\<close>

definition verifyProxyImmutables ::
  "lib \<Rightarrow> 'w signer \<Rightarrow> string \<Rightarrow> paymentRequirements \<Rightarrow> string \<Rightarrow> ('w, unit) prog" where
  "verifyProxyImmutables l signer proxyAddress requirements escrowAddress =
     tryCatch
       (andThen (readContractWithRetry (readString signer) (proxyCall proxyAddress ''TOKEN'') 5)
          (\<lambda>proxyToken.
        andThen (liftE (getAddress l proxyToken)) (\<lambda>proxyTokenNormalized.
        andThen (liftE (getAddress l (asset requirements))) (\<lambda>paymentAssetNormalized.
        if proxyTokenNormalized \<noteq> paymentAssetNormalized then
          throw (newError (tokenMismatchMessage proxyTokenNormalized paymentAssetNormalized))
        else
        andThen (readContractWithRetry (readString signer) (proxyCall proxyAddress ''ESCROW'') 5)
          (\<lambda>proxyEscrow.
        if toLowerCase proxyEscrow \<noteq> toLowerCase escrowAddress then
          throw (newError (escrowMismatchMessage proxyEscrow escrowAddress))
        else succeed ())))))
       (\<lambda>error. throw (newError (immutablesFailedMessage (errorMessageOf error))))"

text \<open>
  DecodeSignature: unwrap an ERC-6492 envelope if there is one, return \<open>null\<close> unless the
  signature has 130 hex digits, and split it into \<open>v\<close>, \<open>r\<close>, \<open>s\<close>.  viem gives
  \<open>v\<close> as a \<open>bigint\<close> and \<open>yParity\<close> as a \<open>number\<close>, and
  \<open>parsedSig.v ?? parsedSig.yParity ?? 0\<close> passes either on as it is.
\<close>

definition decodeSignature :: "lib \<Rightarrow> string \<Rightarrow> ('w, arg \<times> string \<times> string) prog" where
  "decodeSignature l sig =
     (let parsedSignature =
            (case parseErc6492Signature l sig of Inl e \<Rightarrow> sig | Inr inner \<Rightarrow> inner);
          signatureLength =
            (if startsWith parsedSignature ''0x'' then int (length parsedSignature) - 2
             else int (length parsedSignature));
          isECDSA = (signatureLength = 130)
      in if \<not> isECDSA then returnWith None
         else
           andThen (liftE (parseSignature l parsedSignature)) (\<lambda>parsedSig.
             succeed
               (case sig_v parsedSig of
                  Some v \<Rightarrow> ABigInt v
                | None \<Rightarrow> ANumber (case sig_yParity parsedSig of Some y \<Rightarrow> y | None \<Rightarrow> 0),
                sig_r parsedSig, sig_s parsedSig)))"

definition nonceReusedMessage :: "string \<Rightarrow> string" where
  "nonceReusedMessage n =
     ''ERC3009 nonce '' @ n @ '' has already been used. This authorization cannot be reused.''"

text \<open>
  CheckNonceUnused: the \<open>try\<close> block reads \<open>authorizationState\<close> and throws when the nonce
  is used; the \<open>catch\<close> block is empty.
\<close>

definition checkNonceUnused ::
  "lib \<Rightarrow> 'w signer \<Rightarrow> paymentRequirements \<Rightarrow> erc3009Authorization \<Rightarrow> ('w, unit) prog" where
  "checkNonceUnused l signer requirements auth =
     tryCatch
       (andThen (liftE (getAddress l (asset requirements))) (\<lambda>tokenAddress.
        andThen (liftE (getAddress l (auth_from auth))) (\<lambda>authorizer.
        andThen (readContractWithRetry (readBool signer)
                   \<lparr>address = tokenAddress, functionName = ''authorizationState'',
                    args = [AString authorizer, AString (auth_nonce auth)]\<rparr> 5) (\<lambda>nonceUsed.
          if nonceUsed then throw (newError (nonceReusedMessage (auth_nonce auth)))
          else succeed ()))))
       (\<lambda>error. succeed ())"

section \<open>ErrorClassifier\<close>

text \<open>
  The JavaScript library functions the classifier uses, on ASCII strings:
  \<open>String.prototype.slice\<close> (an end of \<open>None\<close> is \<open>NaN\<close>, which \<open>slice\<close> reads as 0),
  \<open>parseInt(s, 16)\<close> (\<open>None\<close> is \<open>NaN\<close>; a value beyond \<open>2 ^ 53\<close> is rounded by
  JavaScript, which \<open>slice\<close> cannot tell from the exact one, both being beyond any string
  length), \<open>Buffer.from(s, "hex")\<close> (which stops at the first pair that is not two hex
  digits), \<open>toString("utf8")\<close>, and \<open>String.prototype.trim\<close>.
\<close>

definition clampIndex :: "nat \<Rightarrow> int \<Rightarrow> nat" where
  "clampIndex len i = (if i < 0 then nat (max (int len + i) 0) else min (nat i) len)"

definition jsSlice :: "string \<Rightarrow> int \<Rightarrow> int option \<Rightarrow> string" where
  "jsSlice s start stop =
     (let len = length s;
          i = clampIndex len start;
          j = clampIndex len (case stop of None \<Rightarrow> 0 | Some e \<Rightarrow> e)
      in take (j - i) (drop i s))"

definition isWhiteSpace :: "char \<Rightarrow> bool" where
  "isWhiteSpace c = (let n = (of_char c :: nat) in (9 \<le> n \<and> n \<le> 13) \<or> n = 32)"

definition hexDigitValue :: "char \<Rightarrow> nat" where
  "hexDigitValue c =
     (let n = (of_char c :: nat)
      in if 48 \<le> n \<and> n \<le> 57 then n - 48
         else if 97 \<le> n \<and> n \<le> 102 then n - 87
         else n - 55)"

definition hexValue :: "string \<Rightarrow> nat" where
  "hexValue ds = foldl (\<lambda>acc c. 16 * acc + hexDigitValue c) 0 ds"

definition parseIntHex :: "string \<Rightarrow> int option" where
  "parseIntHex s =
     (let s1 = dropWhile isWhiteSpace s;
          negative = (s1 \<noteq> [] \<and> hd s1 = CHR ''-'');
          s2 = (if s1 \<noteq> [] \<and> (hd s1 = CHR ''-'' \<or> hd s1 = CHR ''+'') then tl s1 else s1);
          s3 = (if prefix ''0x'' s2 \<or> prefix ''0X'' s2 then drop 2 s2 else s2);
          digits = takeWhile isHexChar s3
      in if digits = [] then None
         else Some (if negative then - int (hexValue digits) else int (hexValue digits)))"

fun hexDecode :: "string \<Rightarrow> string" where
  "hexDecode (a # b # rest) =
     (if isHexChar a \<and> isHexChar b
      then char_of (16 * hexDigitValue a + hexDigitValue b) # hexDecode rest
      else [])"
| "hexDecode [a] = []"
| "hexDecode [] = []"

definition trim :: "string \<Rightarrow> string" where
  "trim s = rev (dropWhile isWhiteSpace (rev (dropWhile isWhiteSpace s)))"

text \<open>
  \<open>Buffer.prototype.toString("utf8")\<close>.  A string that is not ASCII is held as the
  bytes of its UTF-8 encoding, so decoding keeps every well-formed sequence as it is and
  puts the encoding of U+FFFD in the place of every ill-formed one.  The decoder is the
  one of the WHATWG Encoding Standard: \<open>needed\<close> is the number of continuation bytes that
  are still to come, \<open>lower\<close> and \<open>upper\<close> bound the next one, and \<open>pending\<close> holds
  the bytes of the sequence read so far; a byte that cannot continue the sequence ends it
  and is read again as the start of the next.
\<close>

definition replacementCharacter :: string where
  "replacementCharacter = [CHR 0xEF, CHR 0xBF, CHR 0xBD]"

function utf8Decode :: "nat \<Rightarrow> nat \<Rightarrow> nat \<Rightarrow> string \<Rightarrow> string \<Rightarrow> string" where
  "utf8Decode needed lower upper pending [] =
     (if needed = 0 then [] else replacementCharacter)"
| "utf8Decode needed lower upper pending (c # cs) =
     (if needed = 0 then
        (if (of_char c :: nat) \<le> 0x7F then c # utf8Decode 0 0x80 0xBF [] cs
         else if 0xC2 \<le> (of_char c :: nat) \<and> (of_char c :: nat) \<le> 0xDF then
           utf8Decode 1 0x80 0xBF [c] cs
         else if 0xE0 \<le> (of_char c :: nat) \<and> (of_char c :: nat) \<le> 0xEF then
           utf8Decode 2 (if (of_char c :: nat) = 0xE0 then 0xA0 else 0x80)
             (if (of_char c :: nat) = 0xED then 0x9F else 0xBF) [c] cs
         else if 0xF0 \<le> (of_char c :: nat) \<and> (of_char c :: nat) \<le> 0xF4 then
           utf8Decode 3 (if (of_char c :: nat) = 0xF0 then 0x90 else 0x80)
             (if (of_char c :: nat) = 0xF4 then 0x8F else 0xBF) [c] cs
         else replacementCharacter @ utf8Decode 0 0x80 0xBF [] cs)
      else if (of_char c :: nat) < lower \<or> upper < (of_char c :: nat) then
        replacementCharacter @ utf8Decode 0 0x80 0xBF [] (c # cs)
      else if needed = 1 then pending @ c # utf8Decode 0 0x80 0xBF [] cs
      else utf8Decode (needed - 1) 0x80 0xBF (pending @ [c]) cs)"
  by pat_completeness auto
termination
  by (relation "measure (\<lambda>(needed, lower, upper, pending, bs).
                  2 * length bs + (if needed = 0 then 0 else 1))") auto

definition toStringUtf8 :: "string \<Rightarrow> string" where
  "toStringUtf8 bytes = utf8Decode 0 0x80 0xBF [] bytes"

text \<open>
  The decoding of an \<open>Error(string)\<close> payload as the source does it: the selector is
  checked, the length is read from characters 138 to 202 of \<open>cause.data\<close>, the string from
  character 202 on and decoded, and NUL characters are removed.  \<open>None\<close> when nothing is decoded.
\<close>

definition decodeRevertData :: "string \<Rightarrow> string option" where
  "decodeRevertData d =
     (if startsWith d ''0x08c379a0'' then
        (let lengthHex = jsSlice d 138 (Some 202);
             len = parseIntHex lengthHex;
             stringHex = jsSlice d 202 (case len of None \<Rightarrow> None | Some n \<Rightarrow> Some (202 + n * 2));
             decodedReason = filter (\<lambda>c. c \<noteq> CHR 0x00) (toStringUtf8 (hexDecode stringHex))
         in if decodedReason \<noteq> [] then Some decodedReason else None)
      else None)"

text \<open>
  \<open>shortMessage.match(/reverted(?:[: ]+)?(.+)/i)\<close>, the capture group of the leftmost
  match: after \<open>reverted\<close> in any case, the longest run of colons and spaces is skipped and
  the rest of the line is captured; when nothing is left on the line, the last skipped
  character is captured instead.
\<close>

definition isLineTerminator :: "char \<Rightarrow> bool" where
  "isLineTerminator c = (c = CHR 0x0A \<or> c = CHR 0x0D)"

definition matchRevertedHere :: "string \<Rightarrow> string option" where
  "matchRevertedHere s =
     (if toLowerCase (take 8 s) = ''reverted'' then
        (let rest = drop 8 s;
             skipped = takeWhile (\<lambda>c. c = CHR '':'' \<or> c = CHR '' '') rest;
             captured = takeWhile (\<lambda>c. \<not> isLineTerminator c)
                          (dropWhile (\<lambda>c. c = CHR '':'' \<or> c = CHR '' '') rest)
         in if captured \<noteq> [] then Some captured
            else if skipped \<noteq> [] then Some [last skipped]
            else None)
      else None)"

fun matchReverted :: "string \<Rightarrow> string option" where
  "matchReverted [] = None"
| "matchReverted (c # cs) =
     (case matchRevertedHere (c # cs) of Some m \<Rightarrow> Some m | None \<Rightarrow> matchReverted cs)"

text \<open>
  The revert reason the source extracts from the last error (\<open>None\<close> is \<open>undefined\<close>):
  from \<open>cause.reason\<close>, then from \<open>cause.data\<close>, then from \<open>shortMessage\<close>.
\<close>

definition reasonFromCause :: "jsval \<Rightarrow> string option" where
  "reasonFromCause error =
     (case error of
        JObj b errorObj \<Rightarrow>
          (case getProp errorObj ''cause'' of
             JObj cb cause \<Rightarrow>
               (let revertReason =
                      (case getProp cause ''reason'' of JStr r \<Rightarrow> Some r | _ \<Rightarrow> None)
                in case getProp cause ''data'' of
                     JStr d \<Rightarrow>
                       if d \<noteq> [] then
                         (case decodeRevertData d of
                            Some decodedReason \<Rightarrow> Some decodedReason
                          | None \<Rightarrow> revertReason)
                       else revertReason
                   | _ \<Rightarrow> revertReason)
           | _ \<Rightarrow> None)
      | _ \<Rightarrow> None)"

definition falsyReason :: "string option \<Rightarrow> bool" where
  "falsyReason r = (case r of None \<Rightarrow> True | Some s \<Rightarrow> s = [])"

definition extractRevertReason :: "jsval \<Rightarrow> string option" where
  "extractRevertReason error =
     (let revertReason = reasonFromCause error
      in case error of
           JObj b errorObj \<Rightarrow>
             (case getProp errorObj ''shortMessage'' of
                JStr shortMessage \<Rightarrow>
                  if falsyReason revertReason \<and> includesStr shortMessage ''reverted'' then
                    (case matchReverted shortMessage of
                       Some m \<Rightarrow> Some (trim m)
                     | None \<Rightarrow> revertReason)
                  else revertReason
              | _ \<Rightarrow> revertReason)
         | _ \<Rightarrow> revertReason)"

definition noRevertReasonMessage :: "string \<Rightarrow> string" where
  "noRevertReasonMessage errorMessage =
     ''Contract execution reverted (no specific revert reason available). ''
     @ ''All pre-checks passed: merchant registered, nonce unused, proxy immutables readable. ''
     @ ''Possible failure points in executeDeposit: ''
     @ ''1) _readImmutable staticcall failing (unlikely - we can read immutables directly), ''
     @ ''2) ERC3009 transferWithAuthorization failing when called through proxy (most likely), ''
     @ ''3) Transfer to escrow failing, ''
     @ ''4) Escrow.noteDeposit failing - POOL.supply() may be paused, asset not configured in Aave pool, or pool has restrictions. ''
     @ ''Check Aave pool status and asset configuration on Base Sepolia. ''
     @ ''Debugging: Use a transaction trace/debugger on the failed transaction to see exact revert point. ''
     @ ''The simulation succeeds, so the contract logic is correct - this is likely an execution context issue. ''
     @ ''Original error: '' @ errorMessage"

text \<open>The message of the error that is thrown once every attempt at the deposit has failed.\<close>

definition executionFailureMessage :: "jsval \<Rightarrow> string" where
  "executionFailureMessage error =
     ''Failed to execute proxy.executeDeposit: '' @
     (case extractRevertReason error of
        Some revertReason \<Rightarrow>
          if revertReason \<noteq> [] \<and> revertReason \<noteq> ''execution reverted''
          then ''Contract reverted: '' @ revertReason
          else noRevertReasonMessage (errorMessageOf error)
      | None \<Rightarrow> noRevertReasonMessage (errorMessageOf error))"

section \<open>ExecuteDeposit\<close>

text \<open>
  The arguments of the \<open>executeDeposit\<close> call; \<open>getAddress\<close> and \<open>BigInt\<close> may throw
  while they are built, inside the \<open>try\<close> block of the loop.
\<close>

definition depositCall ::
  "lib \<Rightarrow> string \<Rightarrow> erc3009Authorization \<Rightarrow> arg \<Rightarrow> string \<Rightarrow> string \<Rightarrow> jsval + call" where
  "depositCall l proxyAddress auth v r s =
     (case getAddress l (auth_from auth) of
        Inl e \<Rightarrow> Inl e
      | Inr fromUser \<Rightarrow>
          (case bigInt l (auth_value auth) of
             Inl e \<Rightarrow> Inl e
           | Inr amount \<Rightarrow>
               (case bigInt l (auth_validAfter auth) of
                  Inl e \<Rightarrow> Inl e
                | Inr validAfter \<Rightarrow>
                    (case bigInt l (auth_validBefore auth) of
                       Inl e \<Rightarrow> Inl e
                     | Inr validBefore \<Rightarrow>
                         Inr \<lparr>address = proxyAddress, functionName = ''executeDeposit'',
                              args = [AString fromUser, ABigInt amount, ABigInt validAfter,
                                      ABigInt validBefore, AString (auth_nonce auth),
                                      v, AString r, AString s]\<rparr>))))"

text \<open>
  The body of the \<open>try\<close> block of one attempt: it returns the \<open>SettleResponse\<close> from
  \<open>settleWithRefundHelper\<close> or throws.
\<close>

definition executeDepositAttempt ::
  "lib \<Rightarrow> 'w signer \<Rightarrow> paymentRequirements \<Rightarrow> string \<Rightarrow> erc3009Authorization \<Rightarrow>
   arg \<Rightarrow> string \<Rightarrow> string \<Rightarrow> ('w, unit) prog" where
  "executeDepositAttempt l signer requirements proxyAddress auth v r s =
     andThen (liftE (depositCall l proxyAddress auth v r s)) (\<lambda>c.
     andThen (writeContractOp signer c) (\<lambda>txHash.
     andThen (waitForTransactionReceiptOp signer txHash) (\<lambda>status.
       if status \<noteq> ''success'' then
         throw (newError (''Proxy.executeDeposit transaction failed: '' @ txHash))
       else
         returnWith (Some \<lparr>success = True, transaction = txHash,
                           response_network = network requirements,
                           payer = auth_from auth\<rparr>))))"

text \<open>
  The loop \<open>for (let attempt = 0; attempt <= maxRetries; attempt++)\<close> around the attempt,
  from \<open>attempt\<close> on.  It completes with \<open>lastError\<close> when it is left by \<open>break\<close> or by
  its condition.
\<close>

function executeDepositLoop ::
  "('w, unit) prog \<Rightarrow> int \<Rightarrow> int \<Rightarrow> jsval \<Rightarrow> ('w, jsval) prog" where
  "executeDepositLoop body maxRetries attempt lastError w =
     (if attempt \<le> maxRetries then
        (case body w of
           (Inl (Return r), w1, e1) \<Rightarrow> (Inl (Return r), w1, e1)
         | (Inr u, w1, e1) \<Rightarrow>
             (case executeDepositLoop body maxRetries (attempt + 1) lastError w1 of
                (r, w2, e2) \<Rightarrow> (r, w2, e1 @ e2))
         | (Inl (Throw error), w1, e1) \<Rightarrow>
             if attempt \<ge> maxRetries then (Inr error, w1, e1)
             else
               (case executeDepositLoop body maxRetries (attempt + 1) error w1 of
                  (r, w2, e2) \<Rightarrow> (r, w2, e1 @ ESleep ((attempt + 1) * 1000) # e2)))
      else (Inr lastError, w, []))"
  by pat_completeness auto
termination
  by (relation "measure (\<lambda>(body, maxRetries, attempt, lastError, w). nat (maxRetries + 1 - attempt))")
     auto

definition executeDeposit ::
  "lib \<Rightarrow> 'w signer \<Rightarrow> paymentRequirements \<Rightarrow> string \<Rightarrow> erc3009Authorization \<Rightarrow>
   arg \<Rightarrow> string \<Rightarrow> string \<Rightarrow> ('w, unit) prog" where
  "executeDeposit l signer requirements proxyAddress auth v r s =
     andThen
       (executeDepositLoop (executeDepositAttempt l signer requirements proxyAddress auth v r s)
          5 0 JUndefined)
       (\<lambda>error. throw (newError (executionFailureMessage error)))"

section \<open>\<open>settleWithRefundHelper\<close>\<close>

text \<open>
  ResolveRelay: from the code probe at \<open>payTo\<close> to the check that an escrow address is
  known.  It yields the proxy address, the merchant payout and the escrow address.
  \<open>afterProbe\<close> is what follows the probe, given the code it found.
\<close>

definition afterProbe ::
  "lib \<Rightarrow> 'w signer \<Rightarrow> string \<Rightarrow> (string \<rightharpoonup> string) \<Rightarrow> string \<Rightarrow> string option \<Rightarrow>
   ('w, string \<times> string \<times> string) prog" where
  "afterProbe l signer factoryAddr payouts proxyAddress relayCode =
     andThen (resolveMerchant signer payouts proxyAddress (hasCode relayCode))
       (\<lambda>(merchantPayout, escrow0).
     andThen (if \<not> hasCode relayCode
              then deployRelay l signer factoryAddr merchantPayout proxyAddress
              else succeed escrow0) (\<lambda>escrow1.
     andThen (requireEscrow escrow1) (\<lambda>escrowAddress.
     succeed (proxyAddress, merchantPayout, escrowAddress))))"

definition resolveRelay ::
  "lib \<Rightarrow> 'w signer \<Rightarrow> string \<Rightarrow> (string \<rightharpoonup> string) \<Rightarrow> string \<Rightarrow>
   ('w, string \<times> string \<times> string) prog" where
  "resolveRelay l signer factoryAddr payouts payToAddr =
     andThen (liftE (getAddress l payToAddr)) (\<lambda>proxyAddress.
     andThen (getCodeOp signer proxyAddress) (\<lambda>relayCode.
     afterProbe l signer factoryAddr payouts proxyAddress relayCode))"

text \<open>
  Everything that comes before the deposit, from \<open>extractRefundInfo\<close> to the nonce
  check.  It yields what the deposit needs: the proxy address, the authorization and the
  signature split into \<open>v\<close>, \<open>r\<close>, \<open>s\<close>.
\<close>

definition preChecks ::
  "lib \<Rightarrow> paymentPayload \<Rightarrow> paymentRequirements \<Rightarrow> 'w signer \<Rightarrow>
   ('w, string \<times> erc3009Authorization \<times> arg \<times> string \<times> string) prog" where
  "preChecks l paymentPayload requirements signer =
     (case extractRefundInfo l paymentPayload requirements of
        None \<Rightarrow> returnWith None
      | Some (factoryAddr, payouts) \<Rightarrow>
          andThen (checkFactory l signer factoryAddr) (\<lambda>u.
          andThen (resolveRelay l signer factoryAddr payouts (payTo requirements))
            (\<lambda>(proxyAddress, merchantPayout, escrowAddress).
          andThen (checkMerchantRegistered l signer escrowAddress merchantPayout) (\<lambda>u.
          andThen (extractAuthorization (payload paymentPayload)) (\<lambda>(auth, sig).
          andThen (verifyAuthorizationBinding l auth proxyAddress) (\<lambda>u.
          andThen (verifyProxyImmutables l signer proxyAddress requirements escrowAddress) (\<lambda>u.
          andThen (decodeSignature l sig) (\<lambda>(v, r, s).
          andThen (checkNonceUnused l signer requirements auth) (\<lambda>u.
          succeed (proxyAddress, auth, v, r, s))))))))))"

definition settleSteps ::
  "lib \<Rightarrow> paymentPayload \<Rightarrow> paymentRequirements \<Rightarrow> 'w signer \<Rightarrow> ('w, unit) prog" where
  "settleSteps l paymentPayload requirements signer =
     andThen (preChecks l paymentPayload requirements signer) (\<lambda>(proxyAddress, auth, v, r, s).
     executeDeposit l signer requirements proxyAddress auth v r s)"

text \<open>
  The outcome of \<open>settleWithRefundHelper\<close>: what it throws or returns (\<open>Return None\<close> is
  \<open>null\<close>), the next state of the world, and the trace of the run.
\<close>

definition settleWithRefundHelper ::
  "lib \<Rightarrow> paymentPayload \<Rightarrow> paymentRequirements \<Rightarrow> 'w signer \<Rightarrow> 'w \<Rightarrow> abrupt \<times> 'w \<times> event list" where
  "settleWithRefundHelper l paymentPayload requirements signer w =
     (case settleSteps l paymentPayload requirements signer w of
        (Inl x, w1, evs) \<Rightarrow> (x, w1, evs)
      | (Inr u, w1, evs) \<Rightarrow> (Return None, w1, evs))"

section \<open>The server side: \<open>withRefund\<close>\<close>

text \<open>
  A \<open>PaymentOption\<close> of \<open>@x402/core\<close>: \<open>payTo\<close> is a string or a function
  (\<open>DynamicPayTo\<close>), \<open>extra\<close> an optional object.  A \<open>RouteConfig\<close> has one option or
  an array of options under \<open>accepts\<close> and an optional object of extensions; a
  \<open>RoutesConfig\<close> is one \<open>RouteConfig\<close> or an object of them by pattern, given by
  its entries.  The \<open>schema\<close> of the refund extension is a constant and is left out.
\<close>

datatype payToField = StaticPayTo string | DynamicPayTo

record paymentOption =
  option_scheme :: string
  option_payTo :: payToField
  option_price :: string
  option_network :: string
  option_extra :: "(string \<rightharpoonup> jsval) option"











text \<open>
  \<open>computeRelayAddress\<close>: the three addresses are normalized by \<open>getAddress\<close>, which may
  throw; the salt is hashed twice and handed to \<open>predictCreate3Address\<close>.
\<close>

definition computeRelayAddress :: "lib \<Rightarrow> string \<Rightarrow> string \<Rightarrow> string \<Rightarrow> jsval + string" where
  "computeRelayAddress l createxAddress factoryAddr merchantPayout =
     (case getAddress l createxAddress of
        Inl e \<Rightarrow> Inl e
      | Inr createx \<Rightarrow>
          (case getAddress l factoryAddr of
             Inl e \<Rightarrow> Inl e
           | Inr factory \<Rightarrow>
               (case getAddress l merchantPayout of
                  Inl e \<Rightarrow> Inl e
                | Inr merchant \<Rightarrow>
                    (let salt = keccak256Hex l (encodePacked l factory merchant);
                         guardedSalt = keccak256Hex l (encodeAbiParameters l salt)
                     in Inr (predictCreate3Address l createx guardedSalt)))))"


text \<open>
  \<open>merchantPayoutsMap[key] = value\<close> on an object kept as the list of its entries, and the
  loop that fills the map from the refundable options with a string \<open>payTo\<close>.
\<close>

fun setKey :: "string \<Rightarrow> string \<Rightarrow> (string \<times> string) list \<Rightarrow> (string \<times> string) list" where
  "setKey k v [] = [(k, v)]"
| "setKey k v ((k', v') # kvs) =
     (if k' = k then (k, v) # kvs else (k', v') # setKey k v kvs)"

fun collectMerchantPayouts ::
  "lib \<Rightarrow> string \<Rightarrow> string \<Rightarrow> paymentOption list \<Rightarrow> (string \<times> string) list
   \<Rightarrow> jsval + (string \<times> string) list" where
  "collectMerchantPayouts l createxAddress factoryAddr [] merchantPayoutsMap = Inr merchantPayoutsMap"
| "collectMerchantPayouts l createxAddress factoryAddr (option # rest) merchantPayoutsMap =
     (case option_payTo option of
        StaticPayTo merchantPayout \<Rightarrow>
          (case computeRelayAddress l createxAddress factoryAddr merchantPayout of
             Inl e \<Rightarrow> Inl e
           | Inr proxyAddress \<Rightarrow>
               collectMerchantPayouts l createxAddress factoryAddr rest
                 (setKey (toLowerCase proxyAddress) merchantPayout merchantPayoutsMap))
      | DynamicPayTo \<Rightarrow>
          collectMerchantPayouts l createxAddress factoryAddr rest merchantPayoutsMap)"







section \<open>Observers of routes\<close>







section \<open>Example inputs\<close>

text \<open>
  A reader that is rate limited (HTTP 429) on its first two calls and answers the third:
  its state counts the calls.
\<close>

definition rateLimited429 :: jsval where
  "rateLimited429 = JObj False [(''status'', JNum 429)]"

definition flakyRead :: "call \<Rightarrow> nat \<Rightarrow> (jsval + string) \<times> nat" where
  "flakyRead c n = (if n < 2 then Inl rateLimited429 else Inr ''0x01'', Suc n)"

definition someCall :: call where
  "someCall = \<lparr>address = ''0x02'', functionName = ''TOKEN'', args = []\<rparr>"

text \<open>
  A library for the examples.  The hash is constant, so the checksum spelling of an
  address is its lower-case spelling.  A signature without the ERC-6492 suffix is returned
  as it is.  \<open>parseSignature\<close> follows viem: \<open>r\<close> and \<open>s\<close> are the two 32-byte words
  after \<open>0x\<close>, and the rest, read as a hex number, is the recovery value, which must be
  0, 1, 27 or 28.  \<open>BigInt\<close> reads decimal digits.
\<close>

definition decimalDigits :: "string \<Rightarrow> bool" where
  "decimalDigits s = (s \<noteq> [] \<and> list_all (\<lambda>c. 48 \<le> (of_char c :: nat) \<and> (of_char c :: nat) \<le> 57) s)"

definition decimalValue :: "string \<Rightarrow> int" where
  "decimalValue s = foldl (\<lambda>acc c. 10 * acc + int ((of_char c :: nat) - 48)) 0 s"

definition exParseSignature :: "string \<Rightarrow> jsval + signatureParts" where
  "exParseSignature signatureHex =
     (let r = ''0x'' @ toLowerCase (take 64 (drop 2 signatureHex));
          s = ''0x'' @ toLowerCase (take 64 (drop 66 signatureHex));
          rest = drop 130 signatureHex;
          yParityOrV = (if rest \<noteq> [] \<and> list_all isHexChar rest then Some (hexValue rest)
                        else None)
      in if yParityOrV = Some 0 \<or> yParityOrV = Some 1 then
           Inr \<lparr>sig_r = r, sig_s = s, sig_v = None, sig_yParity = map_option int yParityOrV\<rparr>
         else if yParityOrV = Some 27 then
           Inr \<lparr>sig_r = r, sig_s = s, sig_v = Some 27, sig_yParity = Some 0\<rparr>
         else if yParityOrV = Some 28 then
           Inr \<lparr>sig_r = r, sig_s = s, sig_v = Some 28, sig_yParity = Some 1\<rparr>
         else Inl (newError ''Invalid yParityOrV value''))"

definition exLib :: lib where
  "exLib = \<lparr>keccak256 = (\<lambda>s. []),
            invalidAddressError = (\<lambda>a. newError (''Address '' @ a @ '' is invalid.'')),
            parseErc6492Signature = (\<lambda>s. Inr s),
            parseSignature = exParseSignature,
            bigInt = (\<lambda>s. if decimalDigits s then Inr (decimalValue s)
                            else Inl (newError (''Cannot convert '' @ s @ '' to a BigInt''))),
            keccak256Hex = (\<lambda>s. s),
            encodePacked = (\<lambda>a b. a @ drop 2 b),
            encodeAbiParameters = (\<lambda>s. s),
            predictCreate3Address = (\<lambda>deployer salt. ''0x'' @ take 40 (drop 2 salt))\<rparr>"

definition exFactory :: string where
  "exFactory = ''0xfac0000000000000000000000000000000000001''"

definition exProxy :: string where
  "exProxy = ''0xabc0000000000000000000000000000000000002''"

definition exMerchant :: string where
  "exMerchant = ''0x3e00000000000000000000000000000000000003''"

definition exEscrow :: string where
  "exEscrow = ''0xe5c0000000000000000000000000000000000004''"

definition exToken :: string where
  "exToken = ''0x70c0000000000000000000000000000000000005''"

definition exPayer :: string where
  "exPayer = ''0x9a00000000000000000000000000000000000006''"

definition exOther :: string where
  "exOther = ''0x0de0000000000000000000000000000000000007''"

definition exSignature :: string where
  "exSignature = ''0x'' @ replicate 64 (CHR ''1'') @ replicate 64 (CHR ''2'') @ ''1b''"

definition exNonce :: string where
  "exNonce = ''0x'' @ replicate 64 (CHR ''7'')"

text \<open>
  A signer without state: code, read results and write results are fixed functions of the
  address or of the contract function called; every receipt has status \<open>success\<close>.
\<close>

record chainStub =
  stub_code :: "string \<Rightarrow> string option"
  stub_string :: "string \<Rightarrow> jsval + string"
  stub_bool :: "string \<Rightarrow> jsval + bool"
  stub_write :: "string \<Rightarrow> jsval + string"

definition stubSigner :: "chainStub \<Rightarrow> unit signer" where
  "stubSigner stub =
     \<lparr>getCode = (\<lambda>a w. (Inr (stub_code stub a), w)),
      readContractString = (\<lambda>c w. (stub_string stub (functionName c), w)),
      readContractBool = (\<lambda>c w. (stub_bool stub (functionName c), w)),
      writeContract = (\<lambda>c w. (stub_write stub (functionName c), w)),
      waitForTransactionReceipt = (\<lambda>h w. (Inr ''success'', w)),
      getAddresses = (\<lambda>w. [''0xfee0000000000000000000000000000000000008''])\<rparr>"

text \<open>
  A deployed relay whose merchant is registered, whose token is the asset, whose nonce
  is reported used, and whose deposit goes through.
\<close>

definition deployedStub :: chainStub where
  "deployedStub =
     \<lparr>stub_code = (\<lambda>a. Some ''0x6080''),
      stub_string = (\<lambda>fn. if fn = ''MERCHANT_PAYOUT'' then Inr exMerchant
                           else if fn = ''ESCROW'' then Inr exEscrow
                           else if fn = ''TOKEN'' then Inr exToken
                           else Inl (newError ''unknown function'')),
      stub_bool = (\<lambda>fn. Inr True),
      stub_write = (\<lambda>fn. Inr ''0xdead'')\<rparr>"

definition exExtension :: refundExtension where
  "exExtension = \<lparr>info = Some \<lparr>factoryAddress = Some exFactory,
                                merchantPayouts = Some [exProxy \<mapsto> exMerchant]\<rparr>\<rparr>"

definition exAuthorization :: erc3009Authorization where
  "exAuthorization = \<lparr>auth_from = exPayer, auth_to = exProxy, auth_value = ''10000'',
                       auth_validAfter = ''0'', auth_validBefore = ''1900000000'',
                       auth_nonce = exNonce\<rparr>"

definition exPayload :: paymentPayload where
  "exPayload = \<lparr>extensions = Some [REFUND_EXTENSION_KEY \<mapsto> exExtension],
                payload = \<lparr>authorization = Some exAuthorization,
                           signature = Some exSignature\<rparr>\<rparr>"

definition exRequirements :: paymentRequirements where
  "exRequirements = \<lparr>payTo = exProxy, asset = exToken, network = ''eip155:84532''\<rparr>"

text \<open>A payload whose authorization was signed for another address than the proxy.\<close>

definition exMisdirected :: paymentPayload where
  "exMisdirected =
     exPayload\<lparr>payload := \<lparr>authorization = Some (exAuthorization\<lparr>auth_to := exOther\<rparr>),
                              signature = Some exSignature\<rparr>\<rparr>"

text \<open>A deployed relay whose \<open>TOKEN\<close> is not the asset of the payment.\<close>

definition wrongTokenStub :: chainStub where
  "wrongTokenStub =
     deployedStub\<lparr>stub_string :=
       (\<lambda>fn. if fn = ''TOKEN'' then Inr exOther else stub_string deployedStub fn)\<rparr>"

text \<open>
  A signer with one bit of state, set by the first read of a boolean: before it the relay
  declares the escrow \<open>exEscrow\<close>, after it another address.
\<close>

definition driftingSigner :: "bool signer" where
  "driftingSigner =
     \<lparr>getCode = (\<lambda>a w. (Inr (Some ''0x6080''), w)),
      readContractString =
        (\<lambda>c w. (if functionName c = ''ESCROW'' then Inr (if w then exOther else exEscrow)
                  else stub_string deployedStub (functionName c), w)),
      readContractBool = (\<lambda>c w. (Inr True, True)),
      writeContract = (\<lambda>c w. (Inr ''0xdead'', w)),
      waitForTransactionReceipt = (\<lambda>h w. (Inr ''success'', w)),
      getAddresses = (\<lambda>w. [])\<rparr>"

text \<open>
  A chain on which the relay is not deployed and the factory computes another address for
  the merchant than the proxy address of the payment.
\<close>

definition mismatchStub :: chainStub where
  "mismatchStub =
     \<lparr>stub_code = (\<lambda>a. if toLowerCase a = exFactory then Some ''0x6080'' else None),
      stub_string = (\<lambda>fn. if fn = ''getRelayAddress'' then Inr exOther
                           else Inl (newError ''execution reverted'')),
      stub_bool = (\<lambda>fn. Inr True),
      stub_write = (\<lambda>fn. Inr ''0xdead'')\<rparr>"

text \<open>
  A signer whose state says whether the relay is deployed: it is not at first, the
  factory computes the proxy address of the payment, and the \<open>deployRelay\<close> write deploys
  it.
\<close>

definition deployingSigner :: "bool signer" where
  "deployingSigner =
     \<lparr>getCode = (\<lambda>a w. (Inr (if toLowerCase a = exFactory \<or> w then Some ''0x6080'' else None), w)),
      readContractString =
        (\<lambda>c w. (if functionName c = ''getRelayAddress'' then Inr exProxy
                  else stub_string deployedStub (functionName c), w)),
      readContractBool = (\<lambda>c w. (Inr True, w)),
      writeContract = (\<lambda>c w. (Inr ''0xdead'', w \<or> functionName c = ''deployRelay'')),
      waitForTransactionReceipt = (\<lambda>h w. (Inr ''success'', w)),
      getAddresses = (\<lambda>w. [])\<rparr>"

text \<open>
  Contracts with code at the proxy address that are not relays: on the first, the read of
  \<open>MERCHANT_PAYOUT\<close> reverts; on the second, only the read of \<open>ESCROW\<close> does.
\<close>

definition revertedError :: jsval where
  "revertedError = newError ''execution reverted''"

definition notARelayStub :: chainStub where
  "notARelayStub = deployedStub\<lparr>stub_string := (\<lambda>fn. Inl revertedError)\<rparr>"

definition noEscrowStub :: chainStub where
  "noEscrowStub =
     deployedStub\<lparr>stub_string :=
       (\<lambda>fn. if fn = ''ESCROW'' then Inl revertedError else stub_string deployedStub fn)\<rparr>"


text \<open>A payload whose refund extension names a factory that is not an address.\<close>

definition badFactoryPayload :: paymentPayload where
  "badFactoryPayload =
     exPayload\<lparr>extensions :=
       Some [REFUND_EXTENSION_KEY \<mapsto>
               \<lparr>info = Some \<lparr>factoryAddress = Some ''0x1234'',
                              merchantPayouts = Some [exProxy \<mapsto> exMerchant]\<rparr>\<rparr>]\<rparr>"

text \<open>
  The ABI encoding of \<open>Error(string)\<close> for a string of at most 255 bytes: the selector
  \<open>0x08c379a0\<close>, the offset 32 and the length as 32-byte words, and the bytes of the
  string padded with zeros to a multiple of 32 bytes, all in hex.
\<close>

definition hexDigit :: "nat \<Rightarrow> char" where
  "hexDigit n = ''0123456789abcdef'' ! (n mod 16)"

definition hexByte :: "nat \<Rightarrow> string" where
  "hexByte n = [hexDigit (n div 16), hexDigit n]"

definition abiErrorString :: "string \<Rightarrow> string" where
  "abiErrorString s =
     ''0x08c379a0''
     @ replicate 62 (CHR ''0'') @ hexByte 32
     @ replicate 62 (CHR ''0'') @ hexByte (length s)
     @ concat (map (\<lambda>c. hexByte (of_char c)) s)
     @ replicate (2 * ((32 - length s mod 32) mod 32)) (CHR ''0'')"

text \<open>A failed execution whose cause carries the revert data of \<open>Error("abc")\<close>.\<close>

definition abcRevertError :: jsval where
  "abcRevertError =
     JObj True [(''message'', JStr ''The contract function executeDeposit reverted.''),
                (''cause'', JObj True [(''data'', JStr (abiErrorString ''abc''))])]"

definition abcRevertStub :: chainStub where
  "abcRevertStub = deployedStub\<lparr>stub_write := (\<lambda>fn. Inl abcRevertError)\<rparr>"






text \<open>
  A chain that looks at the address and at the arguments of every call.  Its state says
  whether the relay is deployed.  The factory has code, computes the address \<open>computed\<close>
  for the merchant and deploys the relay on \<open>deployRelay\<close>; the relay, once deployed,
  answers for its merchant, its escrow and its token and takes the deposit; the escrow has
  the merchant registered; the token reports the nonce unused.  Everything else reverts.
  Addresses are compared without regard to case.
\<close>

fun lowerArg :: "arg \<Rightarrow> arg" where
  "lowerArg (AString s) = AString (toLowerCase s)"
| "lowerArg (ABigInt n) = ABigInt n"
| "lowerArg (ANumber n) = ANumber n"

definition calledAt :: "call \<Rightarrow> string \<Rightarrow> string \<Rightarrow> arg list \<Rightarrow> bool" where
  "calledAt c a fn as =
     (toLowerCase (address c) = a \<and> functionName c = fn \<and> map lowerArg (args c) = as)"

definition relayChain :: "string \<Rightarrow> bool signer" where
  "relayChain computed =
     \<lparr>getCode = (\<lambda>a deployed.
        (Inr (if toLowerCase a = exFactory \<or> (toLowerCase a = exProxy \<and> deployed)
              then Some ''0x6080'' else None), deployed)),
      readContractString = (\<lambda>c deployed.
        (if calledAt c exFactory ''getRelayAddress'' [AString exMerchant] then Inr computed
         else if deployed \<and> calledAt c exProxy ''MERCHANT_PAYOUT'' [] then Inr exMerchant
         else if deployed \<and> calledAt c exProxy ''ESCROW'' [] then Inr exEscrow
         else if deployed \<and> calledAt c exProxy ''TOKEN'' [] then Inr exToken
         else Inl revertedError, deployed)),
      readContractBool = (\<lambda>c deployed.
        (if calledAt c exEscrow ''registeredMerchants'' [AString exMerchant] then Inr True
         else if calledAt c exToken ''authorizationState'' [AString exPayer, AString exNonce]
           then Inr False
         else Inl revertedError, deployed)),
      writeContract = (\<lambda>c deployed.
        if calledAt c exFactory ''deployRelay'' [AString exMerchant] then (Inr ''0xd3b1'', True)
        else if deployed \<and> toLowerCase (address c) = exProxy \<and> functionName c = ''executeDeposit''
          then (Inr ''0xdead'', deployed)
        else (Inl revertedError, deployed)),
      waitForTransactionReceipt = (\<lambda>h deployed. (Inr ''success'', deployed)),
      getAddresses = (\<lambda>deployed. [])\<rparr>"




text \<open>
  Reading a trace: the outcomes of its \<open>readContract\<close> calls, in order, and the trace
  that the retry policy of the specification prescribes for a list of outcomes: the calls
  in order, and between attempt \<open>k\<close> and the next one a wait of
  \<open>min (1000 * 2 ^ k) 16000\<close> milliseconds, attempts numbered from 0.
\<close>

fun readResults :: "event list \<Rightarrow> (jsval + abi_value) list" where
  "readResults [] = []"
| "readResults (ERead c r # es) = r # readResults es"
| "readResults (EGetCode a r # es) = readResults es"
| "readResults (EWrite c r # es) = readResults es"
| "readResults (EWait h r # es) = readResults es"
| "readResults (ESleep d # es) = readResults es"

fun retryTrace :: "call \<Rightarrow> nat \<Rightarrow> (jsval + abi_value) list \<Rightarrow> event list" where
  "retryTrace c k [] = []"
| "retryTrace c k [r] = [ERead c r]"
| "retryTrace c k (r # r' # rs) =
     ERead c r # ESleep (min (1000 * 2 ^ k) 16000) # retryTrace c (Suc k) (r' # rs)"

text \<open>
  More readers of a trace: the values returned by the successful reads of the contract
  function \<open>fn\<close>, the errors of the failed ones, the outcomes of the writes of \<open>fn\<close>, in
  order; and the kind of an event.
\<close>

fun okReads :: "string \<Rightarrow> event list \<Rightarrow> abi_value list" where
  "okReads fn [] = []"
| "okReads fn (ERead c (Inr v) # es) =
     (if functionName c = fn then v # okReads fn es else okReads fn es)"
| "okReads fn (ERead c (Inl e) # es) = okReads fn es"
| "okReads fn (EGetCode a r # es) = okReads fn es"
| "okReads fn (EWrite c r # es) = okReads fn es"
| "okReads fn (EWait h r # es) = okReads fn es"
| "okReads fn (ESleep d # es) = okReads fn es"

fun failedReads :: "string \<Rightarrow> event list \<Rightarrow> jsval list" where
  "failedReads fn [] = []"
| "failedReads fn (ERead c (Inl e) # es) =
     (if functionName c = fn then e # failedReads fn es else failedReads fn es)"
| "failedReads fn (ERead c (Inr v) # es) = failedReads fn es"
| "failedReads fn (EGetCode a r # es) = failedReads fn es"
| "failedReads fn (EWrite c r # es) = failedReads fn es"
| "failedReads fn (EWait h r # es) = failedReads fn es"
| "failedReads fn (ESleep d # es) = failedReads fn es"

fun writesOf :: "string \<Rightarrow> event list \<Rightarrow> (jsval + string) list" where
  "writesOf fn [] = []"
| "writesOf fn (EWrite c r # es) =
     (if functionName c = fn then r # writesOf fn es else writesOf fn es)"
| "writesOf fn (ERead c r # es) = writesOf fn es"
| "writesOf fn (EGetCode a r # es) = writesOf fn es"
| "writesOf fn (EWait h r # es) = writesOf fn es"
| "writesOf fn (ESleep d # es) = writesOf fn es"

text \<open>
  The contract calls of a trace, reads and writes, in order; the calls of its writes of the
  contract function \<open>fn\<close>; and the values returned by the successful reads of one call,
  with its address and its arguments.
\<close>

fun calls :: "event list \<Rightarrow> call list" where
  "calls [] = []"
| "calls (ERead c r # es) = c # calls es"
| "calls (EWrite c r # es) = c # calls es"
| "calls (EGetCode a r # es) = calls es"
| "calls (EWait h r # es) = calls es"
| "calls (ESleep d # es) = calls es"

fun writeCalls :: "string \<Rightarrow> event list \<Rightarrow> call list" where
  "writeCalls fn [] = []"
| "writeCalls fn (EWrite c r # es) =
     (if functionName c = fn then c # writeCalls fn es else writeCalls fn es)"
| "writeCalls fn (ERead c r # es) = writeCalls fn es"
| "writeCalls fn (EGetCode a r # es) = writeCalls fn es"
| "writeCalls fn (EWait h r # es) = writeCalls fn es"
| "writeCalls fn (ESleep d # es) = writeCalls fn es"

fun okReadsOf :: "call \<Rightarrow> event list \<Rightarrow> abi_value list" where
  "okReadsOf c [] = []"
| "okReadsOf c (ERead c' (Inr v) # es) = (if c' = c then v # okReadsOf c es else okReadsOf c es)"
| "okReadsOf c (ERead c' (Inl e) # es) = okReadsOf c es"
| "okReadsOf c (EGetCode a r # es) = okReadsOf c es"
| "okReadsOf c (EWrite c' r # es) = okReadsOf c es"
| "okReadsOf c (EWait h r # es) = okReadsOf c es"
| "okReadsOf c (ESleep d # es) = okReadsOf c es"

datatype kind = KGetCode | KRead string | KWrite string | KWait | KSleep

fun kindOf :: "event \<Rightarrow> kind" where
  "kindOf (EGetCode a r) = KGetCode"
| "kindOf (ERead c r) = KRead (functionName c)"
| "kindOf (EWrite c r) = KWrite (functionName c)"
| "kindOf (EWait h r) = KWait"
| "kindOf (ESleep d) = KSleep"

definition kinds :: "event list \<Rightarrow> kind set" where
  "kinds evs = kindOf ` set evs"

text \<open>The part of a trace before its first write of the contract function \<open>fn\<close>.\<close>

fun beforeWrite :: "string \<Rightarrow> event list \<Rightarrow> event list" where
  "beforeWrite fn [] = []"
| "beforeWrite fn (EWrite c r # es) =
     (if functionName c = fn then [] else EWrite c r # beforeWrite fn es)"
| "beforeWrite fn (ERead c r # es) = ERead c r # beforeWrite fn es"
| "beforeWrite fn (EGetCode a r # es) = EGetCode a r # beforeWrite fn es"
| "beforeWrite fn (EWait h r # es) = EWait h r # beforeWrite fn es"
| "beforeWrite fn (ESleep d # es) = ESleep d # beforeWrite fn es"

text \<open>The part of a trace from its first write of the contract function \<open>fn\<close> on.\<close>

fun fromWrite :: "string \<Rightarrow> event list \<Rightarrow> event list" where
  "fromWrite fn [] = []"
| "fromWrite fn (EWrite c r # es) =
     (if functionName c = fn then EWrite c r # es else fromWrite fn es)"
| "fromWrite fn (ERead c r # es) = fromWrite fn es"
| "fromWrite fn (EGetCode a r # es) = fromWrite fn es"
| "fromWrite fn (EWait h r # es) = fromWrite fn es"
| "fromWrite fn (ESleep d # es) = fromWrite fn es"

text \<open>
  One attempt at the deposit, as it shows in a trace: the \<open>executeDeposit\<close> write, followed
  by the wait for its receipt when the write returned a transaction hash.  An attempt that
  ends with the event \<open>e\<close> fails with the error \<open>attemptError e\<close> (\<open>None\<close> when it does not
  fail): the error of the write, the error of the wait, or the error the source makes of a
  receipt whose status is not \<open>success\<close>.
\<close>

fun isAttempt :: "event list \<Rightarrow> bool" where
  "isAttempt [EWrite c (Inl e)] = (functionName c = ''executeDeposit'')"
| "isAttempt [EWrite c (Inr h), EWait h' r] = (functionName c = ''executeDeposit'' \<and> h' = h)"
| "isAttempt es = False"

fun attemptError :: "event \<Rightarrow> jsval option" where
  "attemptError (EWrite c (Inl e)) = Some e"
| "attemptError (EWait h (Inl e)) = Some e"
| "attemptError (EWait h (Inr status)) =
     (if status \<noteq> ''success''
      then Some (newError (''Proxy.executeDeposit transaction failed: '' @ h)) else None)"
| "attemptError e = None"

text \<open>
  The trace that a linear backoff prescribes for a list of attempts: the attempts in
  order, and between attempt \<open>k\<close> (counted from 0) and the next one a wait of
  \<open>1000 * (k + 1)\<close> milliseconds.
\<close>

fun linearBackoffTrace :: "nat \<Rightarrow> event list list \<Rightarrow> event list" where
  "linearBackoffTrace k [] = []"
| "linearBackoffTrace k [a] = a"
| "linearBackoffTrace k (a # b # as) =
     a @ ESleep (1000 * (int k + 1)) # linearBackoffTrace (Suc k) (b # as)"

declare readContractLoop.simps [simp del]
declare pollCode.simps [simp del]
declare executeDepositLoop.simps [simp del]

section \<open>Reasoning about programs and traces\<close>

lemma okReads_append [simp]: "okReads fn (xs @ ys) = okReads fn xs @ okReads fn ys"
  by (induction fn xs rule: okReads.induct) auto

lemma failedReads_append [simp]: "failedReads fn (xs @ ys) = failedReads fn xs @ failedReads fn ys"
  by (induction fn xs rule: failedReads.induct) auto

lemma writesOf_append [simp]: "writesOf fn (xs @ ys) = writesOf fn xs @ writesOf fn ys"
  by (induction fn xs rule: writesOf.induct) auto

lemma kinds_Nil [simp]: "kinds [] = {}"
  by (simp add: kinds_def)

lemma kinds_Cons [simp]: "kinds (e # es) = insert (kindOf e) (kinds es)"
  by (simp add: kinds_def)

lemma kinds_append [simp]: "kinds (xs @ ys) = kinds xs \<union> kinds ys"
  by (simp add: kinds_def image_Un)

lemma okReads_nokind: "KRead fn \<notin> kinds evs \<Longrightarrow> okReads fn evs = []"
  by (induction fn evs rule: okReads.induct) auto

lemma failedReads_nokind: "KRead fn \<notin> kinds evs \<Longrightarrow> failedReads fn evs = []"
  by (induction fn evs rule: failedReads.induct) auto

lemma writesOf_nokind: "KWrite fn \<notin> kinds evs \<Longrightarrow> writesOf fn evs = []"
  by (induction fn evs rule: writesOf.induct) auto

lemma andThenE:
  assumes "andThen m f w = (r, w', evs)"
  obtains (abort) x where "m w = (Inl x, w', evs)" "r = Inl x"
        | (continue) a w1 e1 e2 where "m w = (Inr a, w1, e1)" "f a w1 = (r, w', e2)" "evs = e1 @ e2"
  using assms by (auto simp: andThen_def split: prod.splits sum.splits)

lemma tryCatchE:
  assumes "tryCatch m h w = (r, w', evs)"
  obtains (caught) e w1 e1 e2 where "m w = (Inl (Throw e), w1, e1)" "h e w1 = (r, w', e2)" "evs = e1 @ e2"
        | (returned) x where "m w = (Inl (Return x), w', evs)" "r = Inl (Return x)"
        | (completed) a where "m w = (Inr a, w', evs)" "r = Inr a"
  using assms by (auto simp: tryCatch_def split: prod.splits sum.splits abrupt.splits)

lemma succeed_run [simp]: "succeed a w = (r, w', evs) \<longleftrightarrow> r = Inr a \<and> w' = w \<and> evs = []"
  by (auto simp: succeed_def)

lemma throw_run [simp]: "throw e w = (r, w', evs) \<longleftrightarrow> r = Inl (Throw e) \<and> w' = w \<and> evs = []"
  by (auto simp: throw_def)

lemma returnWith_run [simp]:
  "returnWith x w = (r, w', evs) \<longleftrightarrow> r = Inl (Return x) \<and> w' = w \<and> evs = []"
  by (auto simp: returnWith_def)

lemma liftE_run [simp]:
  "liftE x w = (r, w', evs) \<longleftrightarrow>
     (case x of Inl e \<Rightarrow> r = Inl (Throw e) | Inr a \<Rightarrow> r = Inr a) \<and> w' = w \<and> evs = []"
  by (cases x) (auto simp: liftE_def)

lemma getCodeOp_run:
  "getCodeOp signer a w = (r, w', evs) \<Longrightarrow>
     (\<exists>res. evs = [EGetCode a res]
        \<and> (case res of Inl e \<Rightarrow> r = Inl (Throw e) | Inr code \<Rightarrow> r = Inr code))"
  by (auto simp: getCodeOp_def split: prod.splits sum.splits)

lemma readContractLoop_obs:
  assumes "readContractLoop (readContractOp tag f) c m k lastError w = (r, w', evs)"
      and "0 \<le> k" and "k \<le> m"
  shows "kinds evs \<subseteq> {KRead (functionName c), KSleep}
       \<and> okReads fn evs =
           (case r of Inr v \<Rightarrow> if functionName c = fn then [tag v] else [] | Inl x \<Rightarrow> [])
       \<and> ((\<exists>e. r = Inl (Throw e)) \<or> (\<exists>v. r = Inr v))
       \<and> (\<forall>e. e \<in> set (failedReads fn evs) \<and> \<not> isRateLimitError e \<longrightarrow> r = Inl (Throw e))"
  using assms
proof (induction "readContractOp tag f" c m k lastError w arbitrary: r w' evs
       rule: readContractLoop.induct)
  case (1 a maxRetries attempt lastError w)
  obtain r0 w1 where f: "f a w = (r0, w1)" by (cases "f a w")
  show ?case
  proof (cases r0)
    case (Inr v)
    with 1(2-) f show ?thesis
      by (auto simp add: readContractOp_def readContractLoop.simps[of _ a])
  next
    case (Inl error)
    show ?thesis
    proof (cases "isRateLimitError error \<and> attempt < maxRetries")
      case False
      with 1(2-) f Inl show ?thesis
        by (auto simp add: readContractOp_def readContractLoop.simps[of _ a] split: if_splits)
    next
      case True
      obtain r2 w2 e2 where rec:
        "readContractLoop (readContractOp tag f) a maxRetries (attempt + 1) error w1 = (r2, w2, e2)"
        by (cases "readContractLoop (readContractOp tag f) a maxRetries (attempt + 1) error w1")
      have ro: "readContractOp tag f a w = (Inl error, w1, [ERead a (Inl error)])"
        using f Inl by (simp add: readContractOp_def)
      have IH: "kinds e2 \<subseteq> {KRead (functionName a), KSleep}
       \<and> okReads fn e2 =
           (case r2 of Inr v \<Rightarrow> if functionName a = fn then [tag v] else [] | Inl x \<Rightarrow> [])
       \<and> ((\<exists>e. r2 = Inl (Throw e)) \<or> (\<exists>v. r2 = Inr v))
       \<and> (\<forall>e. e \<in> set (failedReads fn e2) \<and> \<not> isRateLimitError e \<longrightarrow> r2 = Inl (Throw e))"
        using 1(1)[OF _ ro[symmetric] _ _ _ _ rec] True 1(3,4) by simp
      have res: "r = r2" "w' = w2"
        "evs = ERead a (Inl error) # ESleep (min (1000 * 2 ^ nat attempt) 16000) # e2"
        using 1(2) True ro rec 1(4) by (simp_all add: readContractLoop.simps[of _ a _ attempt])
      show ?thesis using IH res True by auto
    qed
  qed
qed

lemma retry_obs:
  assumes "readContractWithRetry (readContractOp tag f) c 5 w = (r, w', evs)"
  shows "kinds evs \<subseteq> {KRead (functionName c), KSleep}
       \<and> (\<forall>fn. okReads fn evs =
           (case r of Inr v \<Rightarrow> if functionName c = fn then [tag v] else [] | Inl x \<Rightarrow> []))
       \<and> ((\<exists>e. r = Inl (Throw e)) \<or> (\<exists>v. r = Inr v))
       \<and> (\<forall>fn e. e \<in> set (failedReads fn evs) \<and> \<not> isRateLimitError e \<longrightarrow> r = Inl (Throw e))"
proof -
  have "\<And>fn. kinds evs \<subseteq> {KRead (functionName c), KSleep}
       \<and> okReads fn evs =
           (case r of Inr v \<Rightarrow> if functionName c = fn then [tag v] else [] | Inl x \<Rightarrow> [])
       \<and> ((\<exists>e. r = Inl (Throw e)) \<or> (\<exists>v. r = Inr v))
       \<and> (\<forall>e. e \<in> set (failedReads fn evs) \<and> \<not> isRateLimitError e \<longrightarrow> r = Inl (Throw e))"
    using readContractLoop_obs[of tag f c 5 0 JUndefined w r w' evs] assms
    by (simp add: readContractWithRetry_def)
  then show ?thesis by auto
qed

lemma readString_obs:
  assumes "readContractWithRetry (readString signer) c 5 w = (r, w', evs)"
  shows "kinds evs \<subseteq> {KRead (functionName c), KSleep}
       \<and> (\<forall>fn. okReads fn evs =
           (case r of Inr v \<Rightarrow> if functionName c = fn then [VString v] else [] | Inl x \<Rightarrow> []))
       \<and> ((\<exists>e. r = Inl (Throw e)) \<or> (\<exists>v. r = Inr v))
       \<and> (\<forall>fn e. e \<in> set (failedReads fn evs) \<and> \<not> isRateLimitError e \<longrightarrow> r = Inl (Throw e))"
  using retry_obs[of VString "readContractString signer" c w r w' evs] assms
  by (simp add: readString_def)

lemma readBool_obs:
  assumes "readContractWithRetry (readBool signer) c 5 w = (r, w', evs)"
  shows "kinds evs \<subseteq> {KRead (functionName c), KSleep}
       \<and> (\<forall>fn. okReads fn evs =
           (case r of Inr v \<Rightarrow> if functionName c = fn then [VBool v] else [] | Inl x \<Rightarrow> []))
       \<and> ((\<exists>e. r = Inl (Throw e)) \<or> (\<exists>v. r = Inr v))
       \<and> (\<forall>fn e. e \<in> set (failedReads fn evs) \<and> \<not> isRateLimitError e \<longrightarrow> r = Inl (Throw e))"
  using retry_obs[of VBool "readContractBool signer" c w r w' evs] assms
  by (simp add: readBool_def)

lemma checkFactory_obs:
  assumes "checkFactory l signer fa w = (r, w', evs)"
  shows "kinds evs \<subseteq> {KGetCode} \<and> (r = Inr () \<or> (\<exists>e. r = Inl (Throw e)))"
  using assms unfolding checkFactory_def
  by (auto elim!: tryCatchE andThenE dest!: getCodeOp_run split: if_splits sum.splits)

lemma checkMerchantRegistered_obs:
  assumes "checkMerchantRegistered l signer esc m w = (r, w', evs)"
  shows "kinds evs \<subseteq> {KRead ''registeredMerchants'', KSleep}
       \<and> ((r = Inr ()) = (okReads ''registeredMerchants'' evs = [VBool True]))
       \<and> (r = Inr () \<or> (\<exists>e. r = Inl (Throw e)))"
  using assms unfolding checkMerchantRegistered_def
  apply (elim tryCatchE andThenE)
  apply (auto dest!: readBool_obs split: if_splits sum.splits)
  done

lemma extractAuthorization_obs:
  assumes "extractAuthorization p w = (r, w', evs)"
  shows "evs = [] \<and> w' = w
       \<and> ((\<exists>a s. r = Inr (a, s) \<and> authorization p = Some a \<and> signature p = Some s \<and> s \<noteq> [])
          \<or> (r = Inl (Return None)
              \<and> (authorization p = None \<or> signature p = None \<or> signature p = Some [])))"
  using assms unfolding extractAuthorization_def
  by (auto split: option.splits if_splits)

lemma verifyAuthorizationBinding_obs:
  assumes "verifyAuthorizationBinding l a proxy w = (r, w', evs)"
  shows "evs = [] \<and> w' = w
       \<and> r = (case getAddress l (auth_to a) of
                 Inl e \<Rightarrow> Inl (Throw e)
               | Inr authTo \<Rightarrow>
                   if authTo \<noteq> proxy
                   then Inl (Throw (newError (bindingMismatchMessage authTo proxy)))
                   else Inr ())"
  using assms unfolding verifyAuthorizationBinding_def
  by (auto elim!: andThenE split: sum.splits if_splits)
lemma pollCode_obs:
  assumes "pollCode signer proxy i code0 w = (r, w', evs)"
  shows "kinds evs \<subseteq> {KGetCode, KSleep} \<and> ((\<exists>code. r = Inr code) \<or> (\<exists>e. r = Inl (Throw e)))"
  using assms
proof (induction signer proxy i code0 w arbitrary: r w' evs rule: pollCode.induct)
  case (1 signer proxyAddress i deployedCode w)
  show ?case
  proof (cases "i < 5")
    case False
    then show ?thesis using 1(2) by (auto simp: pollCode.simps[of _ _ i] split: if_splits)
  next
    case True
    obtain r0 w1 where g: "getCode signer proxyAddress w = (r0, w1)"
      by (cases "getCode signer proxyAddress w")
    show ?thesis
    proof (cases r0)
      case (Inl error)
      then show ?thesis using 1(2) True g by (auto simp: pollCode.simps[of _ _ i] split: if_splits)
    next
      case (Inr code)
      show ?thesis
      proof (cases "hasCode code")
        case True
        then show ?thesis using 1(2) \<open>i < 5\<close> g Inr by (auto simp: pollCode.simps[of _ _ i] split: if_splits)
      next
        case False
        obtain r2 w2 e2 where rec: "pollCode signer proxyAddress (Suc i) code w1 = (r2, w2, e2)"
          by (cases "pollCode signer proxyAddress (Suc i) code w1")
        have IH: "kinds e2 \<subseteq> {KGetCode, KSleep}
                  \<and> ((\<exists>code. r2 = Inr code) \<or> (\<exists>e. r2 = Inl (Throw e)))"
          using 1(1)[OF \<open>i < 5\<close> g[symmetric] Inr False rec] .
        show ?thesis
          using 1(2) \<open>i < 5\<close> g Inr False rec IH by (auto simp: pollCode.simps[of _ _ i] split: if_splits)
      qed
    qed
  qed
qed

lemma requireEscrow_obs:
  assumes "requireEscrow esc1 w = (r, w', evs)"
  shows "evs = [] \<and> w' = w
       \<and> ((\<exists>e. r = Inr e \<and> esc1 = Some e \<and> e \<noteq> []) \<or> (\<exists>x. r = Inl (Throw x)))"
  using assms unfolding requireEscrow_def
  by (auto split: option.splits if_splits)

lemma resolveMerchant_obs:
  assumes "resolveMerchant signer payouts proxy relayExists w = (r, w', evs)"
  shows "kinds evs \<subseteq> {KRead ''MERCHANT_PAYOUT'', KRead ''ESCROW'', KSleep}
       \<and> (\<not> relayExists \<longrightarrow> evs = [])
       \<and> ((\<exists>m esc0. r = Inr (m, esc0) \<and> m \<noteq> [] \<and> m \<noteq> zeroAddress
              \<and> (if relayExists
                  then (\<exists>e. esc0 = Some e \<and> okReads ''ESCROW'' evs = [VString e])
                  else esc0 = None \<and> lookupMerchantPayout payouts proxy = Some m))
           \<or> r = Inl (Return None))
       \<and> length (okReads ''ESCROW'' evs) \<le> 1
       \<and> (\<forall>e. e \<in> set (failedReads ''MERCHANT_PAYOUT'' evs) \<and> \<not> isRateLimitError e
              \<longrightarrow> r = Inl (Return None))
       \<and> (\<forall>e. e \<in> set (failedReads ''ESCROW'' evs) \<and> \<not> isRateLimitError e
              \<longrightarrow> r = Inl (Return None))
       \<and> (\<forall>fn. fn \<noteq> ''MERCHANT_PAYOUT'' \<and> fn \<noteq> ''ESCROW'' \<longrightarrow> okReads fn evs = [])"
  using assms unfolding resolveMerchant_def
  by (cases relayExists)
     (auto simp: Let_def proxyCall_def notARefundPayout_def
           elim!: tryCatchE andThenE dest!: readString_obs
           split: if_splits sum.splits option.splits)
lemma beforeWrite_nokind: "KWrite fn \<notin> kinds xs \<Longrightarrow> beforeWrite fn (xs @ ys) = xs @ beforeWrite fn ys"
  by (induction fn xs rule: beforeWrite.induct) auto

lemma beforeWrite_nokind': "KWrite fn \<notin> kinds xs \<Longrightarrow> beforeWrite fn xs = xs"
  using beforeWrite_nokind[of fn xs "[]"] by simp

lemma beforeWrite_written: "writesOf fn xs \<noteq> [] \<Longrightarrow> beforeWrite fn (xs @ ys) = beforeWrite fn xs"
  by (induction fn xs rule: beforeWrite.induct) auto

lemma kinds_subset_iff: "kinds evs \<subseteq> K \<longleftrightarrow> (\<forall>k. k \<notin> K \<longrightarrow> k \<notin> kinds evs)"
  by auto

lemmas trace_simps = kinds_subset_iff okReads_nokind failedReads_nokind writesOf_nokind
  beforeWrite_nokind beforeWrite_nokind'

lemma writeContractOp_run:
  "writeContractOp signer c w = (r, w', evs) \<Longrightarrow>
     (\<exists>res. evs = [EWrite c res]
        \<and> (case res of Inl e \<Rightarrow> r = Inl (Throw e) | Inr h \<Rightarrow> r = Inr h))"
  by (auto simp: writeContractOp_def split: prod.splits sum.splits)

lemma waitForTransactionReceiptOp_run:
  "waitForTransactionReceiptOp signer h w = (r, w', evs) \<Longrightarrow>
     (\<exists>res. evs = [EWait h res]
        \<and> (case res of Inl e \<Rightarrow> r = Inl (Throw e) | Inr s \<Rightarrow> r = Inr s))"
  by (auto simp: waitForTransactionReceiptOp_def split: prod.splits sum.splits)

lemma errorMessageOf_newError [simp]: "errorMessageOf (newError m) = m"
  by (simp add: newError_def getProp_def)

lemma sublist_appendR: "sublist xs ys \<Longrightarrow> sublist xs (ps @ ys)"
  by (metis append.assoc sublist_def)

lemma sublist_appendL: "sublist xs ys \<Longrightarrow> sublist xs (ys @ ss)"
  by (metis append.assoc sublist_def)

lemma sublist_insufficientFundsMessage: "sublist m (insufficientFundsMessage a m)"
  unfolding insufficientFundsMessage_def
  by (intro sublist_appendR) simp

lemma sublist_deployFailedMessage: "sublist m (deployFailedMessage m)"
  unfolding deployFailedMessage_def by (rule sublist_append_leftI)

lemma deployRelayFailed_obs:
  assumes "deployRelayFailed signer error w = (r, w', evs)"
  shows "evs = [] \<and> w' = w
       \<and> (\<exists>msg. r = Inl (Throw (newError msg)) \<and> sublist (errorMessageOf error) msg)"
  using assms unfolding deployRelayFailed_def
  by (auto simp: Let_def sublist_insufficientFundsMessage sublist_deployFailedMessage
           split: if_splits)

lemma confirmRelayDeployed_obs:
  assumes "confirmRelayDeployed signer fa mp proxy txHash w = (r, w', evs)"
  shows "kinds evs \<subseteq> {KRead ''getRelayAddress'', KRead ''ESCROW'', KGetCode, KSleep}
       \<and> ((\<exists>e. r = Inr (Some e) \<and> okReads ''ESCROW'' evs = [VString e])
           \<or> ((\<exists>x. r = Inl (Throw x)) \<and> okReads ''ESCROW'' evs = []))"
  using assms unfolding confirmRelayDeployed_def
  by (auto elim!: andThenE dest!: readString_obs pollCode_obs
           simp: proxyCall_def relayAddressCall_def trace_simps split: if_splits sum.splits)

lemma submitDeployRelay_obs:
  assumes "submitDeployRelay signer fa mp proxy w = (r, w', evs)"
  shows "kinds evs \<subseteq> {KRead ''getRelayAddress'', KRead ''ESCROW'', KWrite ''deployRelay'',
                        KWait, KGetCode, KSleep}
       \<and> ((\<exists>e. r = Inr (Some e) \<and> okReads ''ESCROW'' evs = [VString e])
           \<or> ((\<exists>x. r = Inl (Throw x)) \<and> okReads ''ESCROW'' evs = []))
       \<and> length (writesOf ''deployRelay'' evs) \<le> 1
       \<and> beforeWrite ''deployRelay'' evs = []"
  using assms unfolding submitDeployRelay_def
  by (auto elim!: andThenE
           dest!: confirmRelayDeployed_obs writeContractOp_run waitForTransactionReceiptOp_run
           simp: trace_simps split: if_splits sum.splits)

lemma deployRelay_obs:
  assumes "deployRelay l signer fa m proxy w = (r, w', evs)"
  shows "kinds evs \<subseteq> {KRead ''getRelayAddress'', KRead ''ESCROW'', KWrite ''deployRelay'',
                        KWait, KGetCode, KSleep}
       \<and> ((\<exists>e. r = Inr (Some e) \<and> okReads ''ESCROW'' evs = [VString e])
           \<or> ((\<exists>msg. r = Inl (Throw (newError msg))) \<and> okReads ''ESCROW'' evs = []))
       \<and> length (writesOf ''deployRelay'' evs) \<le> 1
       \<and> (writesOf ''deployRelay'' evs \<noteq> [] \<longrightarrow>
            (\<exists>v. okReads ''getRelayAddress'' (beforeWrite ''deployRelay'' evs) = [VString v]
                 \<and> toLowerCase v = toLowerCase proxy))
       \<and> (\<forall>v rest. okReads ''getRelayAddress'' evs = VString v # rest
                    \<and> toLowerCase v \<noteq> toLowerCase proxy \<longrightarrow>
            (\<exists>msg. r = Inl (Throw (newError msg))
                  \<and> sublist (addressMismatchMessage v proxy) msg)
            \<and> kinds evs \<subseteq> {KRead ''getRelayAddress'', KSleep})"
  using assms unfolding deployRelay_def
  apply (elim tryCatchE andThenE)
  apply (auto dest!: readString_obs deployRelayFailed_obs submitDeployRelay_obs
              simp: relayAddressCall_def trace_simps
              split: if_splits sum.splits)
  done
lemma afterProbe_exists_obs:
  assumes "afterProbe l signer fa payouts proxy code w = (r, w', evs)" and "hasCode code"
  shows "kinds evs \<subseteq> {KRead ''MERCHANT_PAYOUT'', KRead ''ESCROW'', KSleep}
       \<and> ((\<exists>m esc. r = Inr (proxy, m, esc) \<and> okReads ''ESCROW'' evs = [VString esc])
           \<or> ((\<exists>x. r = Inl x) \<and> length (okReads ''ESCROW'' evs) \<le> 1))
       \<and> (\<forall>e. e \<in> set (failedReads ''MERCHANT_PAYOUT'' evs) \<and> \<not> isRateLimitError e
              \<longrightarrow> r = Inl (Return None))
       \<and> (\<forall>e. okReads ''ESCROW'' evs = []
              \<and> e \<in> set (failedReads ''ESCROW'' evs) \<and> \<not> isRateLimitError e
              \<longrightarrow> r = Inl (Return None))"
  using assms unfolding afterProbe_def
  by (auto elim!: andThenE dest!: resolveMerchant_obs requireEscrow_obs)

lemma afterProbe_absent_obs:
  assumes "afterProbe l signer fa payouts proxy code w = (r, w', evs)" and "\<not> hasCode code"
  shows "kinds evs \<subseteq> {KRead ''ESCROW'', KRead ''getRelayAddress'', KWrite ''deployRelay'',
                        KWait, KGetCode, KSleep}
       \<and> ((\<exists>m esc. r = Inr (proxy, m, esc) \<and> okReads ''ESCROW'' evs = [VString esc])
           \<or> ((\<exists>x. r = Inl x) \<and> length (okReads ''ESCROW'' evs) \<le> 1))
       \<and> length (writesOf ''deployRelay'' evs) \<le> 1
       \<and> (writesOf ''deployRelay'' evs \<noteq> [] \<longrightarrow>
            (\<exists>v. okReads ''getRelayAddress'' (beforeWrite ''deployRelay'' evs) = [VString v]
                 \<and> toLowerCase v = toLowerCase proxy))
       \<and> (\<forall>v rest. okReads ''getRelayAddress'' evs = VString v # rest
                    \<and> toLowerCase v \<noteq> toLowerCase proxy \<longrightarrow>
            (\<exists>msg. r = Inl (Throw (newError msg))
                  \<and> sublist (addressMismatchMessage v proxy) msg)
            \<and> kinds evs \<subseteq> {KRead ''getRelayAddress'', KSleep})"
  using assms unfolding afterProbe_def
  by (auto elim!: andThenE dest!: resolveMerchant_obs requireEscrow_obs deployRelay_obs)
lemma resolveRelay_obs:
  assumes "resolveRelay l signer fa payouts payToAddr w = (r, w', evs)"
  shows "kinds evs \<subseteq> {KGetCode, KRead ''MERCHANT_PAYOUT'', KRead ''ESCROW'',
                        KRead ''getRelayAddress'', KWrite ''deployRelay'', KWait, KSleep}
       \<and> ((\<exists>proxy m esc. r = Inr (proxy, m, esc) \<and> getAddress l payToAddr = Inr proxy
              \<and> okReads ''ESCROW'' evs = [VString esc])
           \<or> ((\<exists>x. r = Inl x) \<and> length (okReads ''ESCROW'' evs) \<le> 1))
       \<and> length (writesOf ''deployRelay'' evs) \<le> 1
       \<and> (\<forall>proxy. getAddress l payToAddr = Inr proxy \<and> writesOf ''deployRelay'' evs \<noteq> [] \<longrightarrow>
            (\<exists>v. okReads ''getRelayAddress'' (beforeWrite ''deployRelay'' evs) = [VString v]
                 \<and> toLowerCase v = toLowerCase proxy))
       \<and> (\<forall>proxy v rest. getAddress l payToAddr = Inr proxy
                    \<and> okReads ''getRelayAddress'' evs = VString v # rest
                    \<and> toLowerCase v \<noteq> toLowerCase proxy \<longrightarrow>
            (\<exists>msg. r = Inl (Throw (newError msg))
                  \<and> sublist (addressMismatchMessage v proxy) msg)
            \<and> (\<forall>fn. writesOf fn evs = []))
       \<and> (\<forall>e. e \<in> set (failedReads ''MERCHANT_PAYOUT'' evs) \<and> \<not> isRateLimitError e
              \<longrightarrow> r = Inl (Return None))
       \<and> (\<forall>e. okReads ''MERCHANT_PAYOUT'' evs \<noteq> [] \<and> okReads ''ESCROW'' evs = []
              \<and> e \<in> set (failedReads ''ESCROW'' evs) \<and> \<not> isRateLimitError e
              \<longrightarrow> r = Inl (Return None))"
  using assms unfolding resolveRelay_def
proof (elim andThenE, goal_cases)
  case (1 x)
  then show ?case by (auto split: sum.splits)
next
  case (2 proxy w1 e1 e2 x)
  then show ?case by (auto dest!: getCodeOp_run split: sum.splits)
next
  case (3 proxy w1 e1 e2 code w2 e3 e4)
  have p: "getAddress l payToAddr = Inr proxy" "e1 = []" using 3(1) by (auto split: sum.splits)
  have g: "e3 = [EGetCode proxy (Inr code)]"
    using 3(3) by (auto dest!: getCodeOp_run split: sum.splits)
  show ?case
  proof (cases "hasCode code")
    case True
    from afterProbe_exists_obs[OF 3(4) True] show ?thesis
      using p g 3(2,5) by (auto simp: trace_simps)
  next
    case False
    from afterProbe_absent_obs[OF 3(4) False] show ?thesis
      using p g 3(2,5) by (auto simp: trace_simps)
  qed
qed
lemma sublist_immutablesFailedMessage: "sublist m (immutablesFailedMessage m)"
  unfolding immutablesFailedMessage_def by (rule sublist_append_leftI)

lemma verifyProxyImmutables_obs:
  assumes "verifyProxyImmutables l signer proxy pr esc w = (r, w', evs)"
  shows "kinds evs \<subseteq> {KRead ''TOKEN'', KRead ''ESCROW'', KSleep}
       \<and> (r = Inr () \<or> (\<exists>msg. r = Inl (Throw (newError msg))))
       \<and> length (okReads ''ESCROW'' evs) \<le> 1
       \<and> (\<forall>t tn an. VString t \<in> set (okReads ''TOKEN'' evs) \<and> getAddress l t = Inr tn
                     \<and> getAddress l (asset pr) = Inr an \<and> tn \<noteq> an \<longrightarrow>
            r = Inl (Throw (newError (immutablesFailedMessage (tokenMismatchMessage tn an))))
            \<and> okReads ''ESCROW'' evs = [])
       \<and> (\<forall>pe. okReads ''ESCROW'' evs = [VString pe] \<and> toLowerCase pe \<noteq> toLowerCase esc \<longrightarrow>
            r = Inl (Throw (newError (immutablesFailedMessage (escrowMismatchMessage pe esc)))))"
  using assms unfolding verifyProxyImmutables_def
  by (auto elim!: tryCatchE andThenE dest!: readString_obs
           simp: proxyCall_def trace_simps split: if_splits sum.splits)

lemma decodeSignature_obs:
  assumes "decodeSignature l sg w = (r, w', evs)"
  shows "evs = [] \<and> w' = w"
  using assms unfolding decodeSignature_def
  by (auto simp: Let_def elim!: andThenE split: if_splits sum.splits)

lemma checkNonceUnused_obs:
  assumes "checkNonceUnused l signer pr a w = (r, w', evs)"
  shows "kinds evs \<subseteq> {KRead ''authorizationState'', KSleep} \<and> r = Inr ()"
  using assms unfolding checkNonceUnused_def
  by (auto elim!: tryCatchE andThenE dest!: readBool_obs
           simp: trace_simps split: if_splits sum.splits)
lemma executeDepositAttempt_failed_args:
  assumes "executeDepositAttempt l signer pr proxy a v r s w = (res, w', evs)"
      and "depositCall l proxy a v r s = Inl e"
  shows "res = Inl (Throw e) \<and> evs = [] \<and> w' = w"
  using assms unfolding executeDepositAttempt_def
  by (auto elim!: andThenE split: sum.splits)

lemma depositCall_functionName:
  "depositCall l proxy a v r s = Inr c \<Longrightarrow> functionName c = ''executeDeposit''"
  unfolding depositCall_def by (auto split: sum.splits)

lemma executeDepositAttempt_obs:
  assumes "executeDepositAttempt l signer pr proxy a v r s w = (res, w', evs)"
      and "depositCall l proxy a v r s = Inr c"
  shows "isAttempt evs
       \<and> ((\<exists>h. res = Inl (Return (Some \<lparr>success = True, transaction = h,
                                        response_network = network pr, payer = auth_from a\<rparr>))
                \<and> attemptError (last evs) = None)
           \<or> (\<exists>e. res = Inl (Throw e) \<and> attemptError (last evs) = Some e))"
  using assms depositCall_functionName[OF assms(2)] unfolding executeDepositAttempt_def
  by (auto elim!: andThenE dest!: writeContractOp_run waitForTransactionReceiptOp_run
           split: sum.splits if_splits)
lemma isAttempt_facts:
  assumes "isAttempt a"
  shows "a \<noteq> [] \<and> length (writesOf ''executeDeposit'' a) = 1
       \<and> kinds a \<subseteq> {KWrite ''executeDeposit'', KWait}
       \<and> fromWrite ''executeDeposit'' (a @ es) = a @ es"
  using assms by (induction a rule: isAttempt.induct) auto

lemma linearBackoffTrace_Cons:
  "as \<noteq> [] \<Longrightarrow>
     linearBackoffTrace k (a # as) = a @ ESleep (1000 * (int k + 1)) # linearBackoffTrace (Suc k) as"
  by (cases as) auto

lemma linearBackoffTrace_nonempty:
  "as \<noteq> [] \<Longrightarrow> list_all isAttempt as \<Longrightarrow> linearBackoffTrace k as \<noteq> []"
  by (induction k as rule: linearBackoffTrace.induct) (auto dest: isAttempt_facts)

lemma executeDepositLoop_attempts:
  fixes respOf :: "string \<Rightarrow> settleResponse"
  assumes body: "\<And>w res w' evs. body w = (res, w', evs) \<Longrightarrow>
            isAttempt evs
            \<and> ((\<exists>h. res = Inl (Return (Some (respOf h))) \<and> attemptError (last evs) = None)
                \<or> (\<exists>e. res = Inl (Throw e) \<and> attemptError (last evs) = Some e))"
      and run: "executeDepositLoop body 5 k lastError w = (r, w', evs)"
      and k: "0 \<le> k" "k \<le> 5"
  shows "\<exists>attempts. evs = linearBackoffTrace (nat k) attempts \<and> attempts \<noteq> []
           \<and> int (length attempts) \<le> 6 - k \<and> list_all isAttempt attempts
           \<and> length (writesOf ''executeDeposit'' evs) = length attempts
           \<and> ((\<exists>h. r = Inl (Return (Some (respOf h))) \<and> attemptError (last evs) = None)
               \<or> (\<exists>e. r = Inr e \<and> attemptError (last evs) = Some e
                      \<and> int (length attempts) = 6 - k))"
  using body run k
proof (induction body "5::int" k lastError w arbitrary: r w' evs rule: executeDepositLoop.induct)
  case (1 body attempt lastError w)
  note bodyP = "1.prems"(1)
  note runP = "1.prems"(2)
  note kP = "1.prems"(3,4)
  obtain r0 w1 e1 where b: "body w = (r0, w1, e1)" by (cases "body w") auto
  from bodyP[OF b] have att: "isAttempt e1" and
    out: "(\<exists>h. r0 = Inl (Return (Some (respOf h))) \<and> attemptError (last e1) = None)
          \<or> (\<exists>e. r0 = Inl (Throw e) \<and> attemptError (last e1) = Some e)" by auto
  from isAttempt_facts[OF att, of "[]"] have e1: "e1 \<noteq> []"
    "length (writesOf ''executeDeposit'' e1) = 1" by auto
  from out show ?case
  proof
    assume "\<exists>h. r0 = Inl (Return (Some (respOf h))) \<and> attemptError (last e1) = None"
    then obtain h where h: "r0 = Inl (Return (Some (respOf h)))" "attemptError (last e1) = None"
      by auto
    have "r = Inl (Return (Some (respOf h)))" "evs = e1"
      using runP kP b h by (auto simp: executeDepositLoop.simps[of body _ attempt])
    then show ?thesis using att e1 h kP
      by (intro exI[of _ "[e1]"]) auto
  next
    assume "\<exists>e. r0 = Inl (Throw e) \<and> attemptError (last e1) = Some e"
    then obtain e where e: "r0 = Inl (Throw e)" "attemptError (last e1) = Some e" by auto
    show ?thesis
    proof (cases "attempt \<ge> 5")
      case True
      have "r = Inr e" "evs = e1"
        using runP kP b e True by (auto simp: executeDepositLoop.simps[of body _ attempt])
      then show ?thesis using att e1 e kP True
        by (intro exI[of _ "[e1]"]) auto
    next
      case False
      obtain r2 w2 e2 where rec: "executeDepositLoop body 5 (attempt + 1) e w1 = (r2, w2, e2)"
        by (cases "executeDepositLoop body 5 (attempt + 1) e w1") auto
      have res: "r = r2" "evs = e1 @ ESleep ((attempt + 1) * 1000) # e2"
        using runP kP b e False rec
        by (auto simp: executeDepositLoop.simps[of body _ attempt])
      have "\<exists>attempts. e2 = linearBackoffTrace (nat (attempt + 1)) attempts \<and> attempts \<noteq> []
           \<and> int (length attempts) \<le> 6 - (attempt + 1) \<and> list_all isAttempt attempts
           \<and> length (writesOf ''executeDeposit'' e2) = length attempts
           \<and> ((\<exists>h. r2 = Inl (Return (Some (respOf h))) \<and> attemptError (last e2) = None)
               \<or> (\<exists>e. r2 = Inr e \<and> attemptError (last e2) = Some e
                      \<and> int (length attempts) = 6 - (attempt + 1)))"
        using "1.hyps"(1)[OF _ b[symmetric] e(1) refl refl _ bodyP rec] kP e False by auto
      then obtain attempts where A: "e2 = linearBackoffTrace (nat (attempt + 1)) attempts"
          "attempts \<noteq> []" "int (length attempts) \<le> 6 - (attempt + 1)" "list_all isAttempt attempts"
          "length (writesOf ''executeDeposit'' e2) = length attempts"
          "(\<exists>h. r2 = Inl (Return (Some (respOf h))) \<and> attemptError (last e2) = None)
               \<or> (\<exists>e. r2 = Inr e \<and> attemptError (last e2) = Some e
                      \<and> int (length attempts) = 6 - (attempt + 1))"
        by blast
      have ne2: "e2 \<noteq> []" using A linearBackoffTrace_nonempty by auto
      have nat_suc: "nat (attempt + 1) = Suc (nat attempt)" using kP by simp
      have tr: "evs = linearBackoffTrace (nat attempt) (e1 # attempts)"
        using res A(1,2) nat_suc kP
        by (simp add: linearBackoffTrace_Cons algebra_simps)
      have lastE: "last evs = last e2" using res ne2 by simp
      have wr: "length (writesOf ''executeDeposit'' evs) = length (e1 # attempts)"
        using res(2) e1(2) A(5) by simp
      have len: "int (length (e1 # attempts)) \<le> 6 - attempt" using A(3) by simp
      have all: "list_all isAttempt (e1 # attempts)" using att A(4) by simp
      have out': "(\<exists>h. r = Inl (Return (Some (respOf h))) \<and> attemptError (last evs) = None)
               \<or> (\<exists>e. r = Inr e \<and> attemptError (last evs) = Some e
                      \<and> int (length (e1 # attempts)) = 6 - attempt)"
        using A(6) res(1) lastE by auto
      show ?thesis
        using tr wr len all out' by blast
    qed
  qed
qed
lemma fromWrite_nokind: "KWrite fn \<notin> kinds xs \<Longrightarrow> fromWrite fn (xs @ ys) = fromWrite fn ys"
  by (induction fn xs rule: fromWrite.induct) auto

lemma fromWrite_nokind': "KWrite fn \<notin> kinds xs \<Longrightarrow> fromWrite fn xs = []"
  using fromWrite_nokind[of fn xs "[]"] by simp

lemma linearBackoffTrace_facts:
  assumes "list_all isAttempt as"
  shows "kinds (linearBackoffTrace k as) \<subseteq> {KWrite ''executeDeposit'', KWait, KSleep}
       \<and> fromWrite ''executeDeposit'' (linearBackoffTrace k as) = linearBackoffTrace k as"
  using assms
proof (induction k as rule: linearBackoffTrace.induct)
  case (1 k)
  then show ?case by simp
next
  case (2 k a)
  then show ?case using isAttempt_facts[of a "[]"] by auto
next
  case (3 k a b as)
  then show ?case
    using isAttempt_facts[of a "ESleep (1000 * (int k + 1)) # linearBackoffTrace (Suc k) (b # as)"]
    by auto
qed

lemma executeDepositLoop_noargs:
  assumes body: "\<And>w res w' evs. body w = (res, w', evs) \<Longrightarrow>
                   res = Inl (Throw e0) \<and> evs = [] \<and> w' = w"
      and run: "executeDepositLoop body 5 k lastError w = (r, w', evs)"
      and k: "0 \<le> k" "k \<le> 5"
  shows "r = Inr e0 \<and> kinds evs \<subseteq> {KSleep}"
  using body run k
proof (induction body "5::int" k lastError w arbitrary: r w' evs rule: executeDepositLoop.induct)
  case (1 body attempt lastError w)
  note bodyP = "1.prems"(1)
  note runP = "1.prems"(2)
  note kP = "1.prems"(3,4)
  obtain r0 w1 e1 where b: "body w = (r0, w1, e1)" by (cases "body w") auto
  from bodyP[OF b] have b': "r0 = Inl (Throw e0)" "e1 = []" "w1 = w" by auto
  show ?case
  proof (cases "attempt \<ge> 5")
    case True
    then show ?thesis
      using runP kP b b' by (auto simp: executeDepositLoop.simps[of body])
  next
    case False
    obtain r2 w2 e2 where rec: "executeDepositLoop body 5 (attempt + 1) e0 w1 = (r2, w2, e2)"
      by (cases "executeDepositLoop body 5 (attempt + 1) e0 w1") auto
    have IH: "r2 = Inr e0 \<and> kinds e2 \<subseteq> {KSleep}"
      using "1.hyps"(1)[OF _ b[symmetric] b'(1) refl refl _ bodyP rec] kP False by auto
    show ?thesis
      using runP kP b b' False rec IH
      by (auto simp: executeDepositLoop.simps[of body])
  qed
qed

lemma executeDeposit_obs:
  assumes "executeDeposit l signer pr proxy a v r s w = (res, w', evs)"
  shows "kinds evs \<subseteq> {KWrite ''executeDeposit'', KWait, KSleep}
       \<and> ((\<exists>h. res = Inl (Return (Some \<lparr>success = True, transaction = h,
                                         response_network = network pr, payer = auth_from a\<rparr>)))
           \<or> (\<exists>e. res = Inl (Throw (newError (executionFailureMessage e)))))
       \<and> length (writesOf ''executeDeposit'' evs) \<le> 6
       \<and> (\<exists>attempts. fromWrite ''executeDeposit'' evs = linearBackoffTrace 0 attempts
              \<and> length attempts = length (writesOf ''executeDeposit'' evs)
              \<and> list_all isAttempt attempts)
       \<and> (writesOf ''executeDeposit'' evs \<noteq> [] \<longrightarrow>
            evs \<noteq> [] \<and>
            (case attemptError (last evs) of
               Some e \<Rightarrow> res = Inl (Throw (newError (executionFailureMessage e)))
                          \<and> length (writesOf ''executeDeposit'' evs) = 6
             | None \<Rightarrow> (\<exists>h. res = Inl (Return (Some \<lparr>success = True, transaction = h,
                               response_network = network pr, payer = auth_from a\<rparr>)))))"
proof -
  let ?body = "executeDepositAttempt l signer pr proxy a v r s"
  from assms obtain r1 w1 e1 where
    loop: "executeDepositLoop ?body 5 0 JUndefined w = (r1, w1, e1)"
    and fin: "(\<exists>x. r1 = Inl x \<and> res = Inl x \<and> evs = e1)
              \<or> (\<exists>e. r1 = Inr e \<and> res = Inl (Throw (newError (executionFailureMessage e)))
                     \<and> evs = e1)"
    unfolding executeDeposit_def by (auto elim!: andThenE)
  show ?thesis
  proof (cases "depositCall l proxy a v r s")
    case (Inl e0)
    have "r1 = Inr e0 \<and> kinds e1 \<subseteq> {KSleep}"
      by (rule executeDepositLoop_noargs[OF _ loop])
         (auto dest: executeDepositAttempt_failed_args[OF _ Inl])
    then show ?thesis using fin
      by (auto simp: trace_simps fromWrite_nokind' intro!: exI[of _ "[]"])
  next
    case (Inr c)
    let ?resp = "\<lambda>h. \<lparr>success = True, transaction = h,
                        response_network = network pr, payer = auth_from a\<rparr>"
    have "\<exists>attempts. e1 = linearBackoffTrace (nat 0) attempts \<and> attempts \<noteq> []
           \<and> int (length attempts) \<le> 6 - 0 \<and> list_all isAttempt attempts
           \<and> length (writesOf ''executeDeposit'' e1) = length attempts
           \<and> ((\<exists>h. r1 = Inl (Return (Some (?resp h))) \<and> attemptError (last e1) = None)
               \<or> (\<exists>e. r1 = Inr e \<and> attemptError (last e1) = Some e
                      \<and> int (length attempts) = 6 - 0))"
      by (rule executeDepositLoop_attempts[OF _ loop])
         (auto dest: executeDepositAttempt_obs[OF _ Inr])
    then obtain attempts where A: "e1 = linearBackoffTrace 0 attempts" "attempts \<noteq> []"
        "length attempts \<le> 6" "list_all isAttempt attempts"
        "length (writesOf ''executeDeposit'' e1) = length attempts"
        "(\<exists>h. r1 = Inl (Return (Some (?resp h))) \<and> attemptError (last e1) = None)
               \<or> (\<exists>e. r1 = Inr e \<and> attemptError (last e1) = Some e \<and> length attempts = 6)"
      by auto
    have ne: "e1 \<noteq> []" using A linearBackoffTrace_nonempty by auto
    have ev: "evs = e1" using fin by auto
    from linearBackoffTrace_facts[OF A(4), of 0] A(1)
    have K: "kinds e1 \<subseteq> {KWrite ''executeDeposit'', KWait, KSleep}"
      "fromWrite ''executeDeposit'' e1 = e1" by auto
    have ex: "\<exists>attempts. fromWrite ''executeDeposit'' evs = linearBackoffTrace 0 attempts
              \<and> length attempts = length (writesOf ''executeDeposit'' evs)
              \<and> list_all isAttempt attempts"
      using K(2) A ev by auto
    show ?thesis using A(3,5,6) K(1) ne ev ex fin by auto
  qed
qed

lemma preChecks_cases:
  assumes "preChecks l pp pr signer w = (res, w', evs)"
  obtains
    (notApplicable) "extractRefundInfo l pp pr = None" "res = Inl (Return None)" "w' = w" "evs = []"
  | (factory) fa payouts e1 x where
      "extractRefundInfo l pp pr = Some (fa, payouts)"
      "checkFactory l signer fa w = (Inl x, w', e1)"
      "res = Inl x"
      "evs = e1"
  | (resolve) fa payouts w1 e1 e2 x where
      "extractRefundInfo l pp pr = Some (fa, payouts)"
      "checkFactory l signer fa w = (Inr (), w1, e1)"
      "resolveRelay l signer fa payouts (payTo pr) w1 = (Inl x, w', e2)"
      "res = Inl x"
      "evs = e1 @ e2"
  | (registration) fa payouts w1 e1 proxy m esc w2 e2 e3 x where
      "extractRefundInfo l pp pr = Some (fa, payouts)"
      "checkFactory l signer fa w = (Inr (), w1, e1)"
      "resolveRelay l signer fa payouts (payTo pr) w1 = (Inr (proxy, m, esc), w2, e2)"
      "checkMerchantRegistered l signer esc m w2 = (Inl x, w', e3)"
      "res = Inl x"
      "evs = e1 @ e2 @ e3"
  | (noPayload) fa payouts w1 e1 proxy m esc w2 e2 w3 e3 e4 x where
      "extractRefundInfo l pp pr = Some (fa, payouts)"
      "checkFactory l signer fa w = (Inr (), w1, e1)"
      "resolveRelay l signer fa payouts (payTo pr) w1 = (Inr (proxy, m, esc), w2, e2)"
      "checkMerchantRegistered l signer esc m w2 = (Inr (), w3, e3)"
      "extractAuthorization (payload pp) w3 = (Inl x, w', e4)"
      "res = Inl x"
      "evs = e1 @ e2 @ e3 @ e4"
  | (binding) fa payouts w1 e1 proxy m esc w2 e2 w3 e3 a sg w4 e4 e5 x where
      "extractRefundInfo l pp pr = Some (fa, payouts)"
      "checkFactory l signer fa w = (Inr (), w1, e1)"
      "resolveRelay l signer fa payouts (payTo pr) w1 = (Inr (proxy, m, esc), w2, e2)"
      "checkMerchantRegistered l signer esc m w2 = (Inr (), w3, e3)"
      "extractAuthorization (payload pp) w3 = (Inr (a, sg), w4, e4)"
      "verifyAuthorizationBinding l a proxy w4 = (Inl x, w', e5)"
      "res = Inl x"
      "evs = e1 @ e2 @ e3 @ e4 @ e5"
  | (immutables) fa payouts w1 e1 proxy m esc w2 e2 w3 e3 a sg w4 e4 w5 e5 e6 x where
      "extractRefundInfo l pp pr = Some (fa, payouts)"
      "checkFactory l signer fa w = (Inr (), w1, e1)"
      "resolveRelay l signer fa payouts (payTo pr) w1 = (Inr (proxy, m, esc), w2, e2)"
      "checkMerchantRegistered l signer esc m w2 = (Inr (), w3, e3)"
      "extractAuthorization (payload pp) w3 = (Inr (a, sg), w4, e4)"
      "verifyAuthorizationBinding l a proxy w4 = (Inr (), w5, e5)"
      "verifyProxyImmutables l signer proxy pr esc w5 = (Inl x, w', e6)"
      "res = Inl x"
      "evs = e1 @ e2 @ e3 @ e4 @ e5 @ e6"
  | (signature) fa payouts w1 e1 proxy m esc w2 e2 w3 e3 a sg w4 e4 w5 e5 w6 e6 e7 x where
      "extractRefundInfo l pp pr = Some (fa, payouts)"
      "checkFactory l signer fa w = (Inr (), w1, e1)"
      "resolveRelay l signer fa payouts (payTo pr) w1 = (Inr (proxy, m, esc), w2, e2)"
      "checkMerchantRegistered l signer esc m w2 = (Inr (), w3, e3)"
      "extractAuthorization (payload pp) w3 = (Inr (a, sg), w4, e4)"
      "verifyAuthorizationBinding l a proxy w4 = (Inr (), w5, e5)"
      "verifyProxyImmutables l signer proxy pr esc w5 = (Inr (), w6, e6)"
      "decodeSignature l sg w6 = (Inl x, w', e7)"
      "res = Inl x"
      "evs = e1 @ e2 @ e3 @ e4 @ e5 @ e6 @ e7"
  | (nonce) fa payouts w1 e1 proxy m esc w2 e2 w3 e3 a sg w4 e4 w5 e5 w6 e6 v r s w7 e7 e8 x where
      "extractRefundInfo l pp pr = Some (fa, payouts)"
      "checkFactory l signer fa w = (Inr (), w1, e1)"
      "resolveRelay l signer fa payouts (payTo pr) w1 = (Inr (proxy, m, esc), w2, e2)"
      "checkMerchantRegistered l signer esc m w2 = (Inr (), w3, e3)"
      "extractAuthorization (payload pp) w3 = (Inr (a, sg), w4, e4)"
      "verifyAuthorizationBinding l a proxy w4 = (Inr (), w5, e5)"
      "verifyProxyImmutables l signer proxy pr esc w5 = (Inr (), w6, e6)"
      "decodeSignature l sg w6 = (Inr (v, r, s), w7, e7)"
      "checkNonceUnused l signer pr a w7 = (Inl x, w', e8)"
      "res = Inl x"
      "evs = e1 @ e2 @ e3 @ e4 @ e5 @ e6 @ e7 @ e8"
  | (passed) fa payouts w1 e1 proxy m esc w2 e2 w3 e3 a sg w4 e4 w5 e5 w6 e6 v r s w7 e7 e8 where
      "extractRefundInfo l pp pr = Some (fa, payouts)"
      "checkFactory l signer fa w = (Inr (), w1, e1)"
      "resolveRelay l signer fa payouts (payTo pr) w1 = (Inr (proxy, m, esc), w2, e2)"
      "checkMerchantRegistered l signer esc m w2 = (Inr (), w3, e3)"
      "extractAuthorization (payload pp) w3 = (Inr (a, sg), w4, e4)"
      "verifyAuthorizationBinding l a proxy w4 = (Inr (), w5, e5)"
      "verifyProxyImmutables l signer proxy pr esc w5 = (Inr (), w6, e6)"
      "decodeSignature l sg w6 = (Inr (v, r, s), w7, e7)"
      "checkNonceUnused l signer pr a w7 = (Inr (), w', e8)"
      "res = Inr (proxy, a, v, r, s)"
      "evs = e1 @ e2 @ e3 @ e4 @ e5 @ e6 @ e7 @ e8"
  using assms unfolding preChecks_def
  by (auto split: option.splits prod.splits sum.splits elim!: andThenE)

lemma settle_cases:
  assumes "settleWithRefundHelper l pp pr signer w = (res, w', evs)"
  obtains
    (notApplicable) "extractRefundInfo l pp pr = None" "res = Return None" "w' = w" "evs = []"
  | (factory) fa payouts e1 x where
      "extractRefundInfo l pp pr = Some (fa, payouts)"
      "checkFactory l signer fa w = (Inl x, w', e1)"
      "res = x"
      "evs = e1"
  | (resolve) fa payouts w1 e1 e2 x where
      "extractRefundInfo l pp pr = Some (fa, payouts)"
      "checkFactory l signer fa w = (Inr (), w1, e1)"
      "resolveRelay l signer fa payouts (payTo pr) w1 = (Inl x, w', e2)"
      "res = x"
      "evs = e1 @ e2"
  | (registration) fa payouts w1 e1 proxy m esc w2 e2 e3 x where
      "extractRefundInfo l pp pr = Some (fa, payouts)"
      "checkFactory l signer fa w = (Inr (), w1, e1)"
      "resolveRelay l signer fa payouts (payTo pr) w1 = (Inr (proxy, m, esc), w2, e2)"
      "checkMerchantRegistered l signer esc m w2 = (Inl x, w', e3)"
      "res = x"
      "evs = e1 @ e2 @ e3"
  | (noPayload) fa payouts w1 e1 proxy m esc w2 e2 w3 e3 e4 x where
      "extractRefundInfo l pp pr = Some (fa, payouts)"
      "checkFactory l signer fa w = (Inr (), w1, e1)"
      "resolveRelay l signer fa payouts (payTo pr) w1 = (Inr (proxy, m, esc), w2, e2)"
      "checkMerchantRegistered l signer esc m w2 = (Inr (), w3, e3)"
      "extractAuthorization (payload pp) w3 = (Inl x, w', e4)"
      "res = x"
      "evs = e1 @ e2 @ e3 @ e4"
  | (binding) fa payouts w1 e1 proxy m esc w2 e2 w3 e3 a sg w4 e4 e5 x where
      "extractRefundInfo l pp pr = Some (fa, payouts)"
      "checkFactory l signer fa w = (Inr (), w1, e1)"
      "resolveRelay l signer fa payouts (payTo pr) w1 = (Inr (proxy, m, esc), w2, e2)"
      "checkMerchantRegistered l signer esc m w2 = (Inr (), w3, e3)"
      "extractAuthorization (payload pp) w3 = (Inr (a, sg), w4, e4)"
      "verifyAuthorizationBinding l a proxy w4 = (Inl x, w', e5)"
      "res = x"
      "evs = e1 @ e2 @ e3 @ e4 @ e5"
  | (immutables) fa payouts w1 e1 proxy m esc w2 e2 w3 e3 a sg w4 e4 w5 e5 e6 x where
      "extractRefundInfo l pp pr = Some (fa, payouts)"
      "checkFactory l signer fa w = (Inr (), w1, e1)"
      "resolveRelay l signer fa payouts (payTo pr) w1 = (Inr (proxy, m, esc), w2, e2)"
      "checkMerchantRegistered l signer esc m w2 = (Inr (), w3, e3)"
      "extractAuthorization (payload pp) w3 = (Inr (a, sg), w4, e4)"
      "verifyAuthorizationBinding l a proxy w4 = (Inr (), w5, e5)"
      "verifyProxyImmutables l signer proxy pr esc w5 = (Inl x, w', e6)"
      "res = x"
      "evs = e1 @ e2 @ e3 @ e4 @ e5 @ e6"
  | (signature) fa payouts w1 e1 proxy m esc w2 e2 w3 e3 a sg w4 e4 w5 e5 w6 e6 e7 x where
      "extractRefundInfo l pp pr = Some (fa, payouts)"
      "checkFactory l signer fa w = (Inr (), w1, e1)"
      "resolveRelay l signer fa payouts (payTo pr) w1 = (Inr (proxy, m, esc), w2, e2)"
      "checkMerchantRegistered l signer esc m w2 = (Inr (), w3, e3)"
      "extractAuthorization (payload pp) w3 = (Inr (a, sg), w4, e4)"
      "verifyAuthorizationBinding l a proxy w4 = (Inr (), w5, e5)"
      "verifyProxyImmutables l signer proxy pr esc w5 = (Inr (), w6, e6)"
      "decodeSignature l sg w6 = (Inl x, w', e7)"
      "res = x"
      "evs = e1 @ e2 @ e3 @ e4 @ e5 @ e6 @ e7"
  | (nonce) fa payouts w1 e1 proxy m esc w2 e2 w3 e3 a sg w4 e4 w5 e5 w6 e6 v r s w7 e7 e8 x where
      "extractRefundInfo l pp pr = Some (fa, payouts)"
      "checkFactory l signer fa w = (Inr (), w1, e1)"
      "resolveRelay l signer fa payouts (payTo pr) w1 = (Inr (proxy, m, esc), w2, e2)"
      "checkMerchantRegistered l signer esc m w2 = (Inr (), w3, e3)"
      "extractAuthorization (payload pp) w3 = (Inr (a, sg), w4, e4)"
      "verifyAuthorizationBinding l a proxy w4 = (Inr (), w5, e5)"
      "verifyProxyImmutables l signer proxy pr esc w5 = (Inr (), w6, e6)"
      "decodeSignature l sg w6 = (Inr (v, r, s), w7, e7)"
      "checkNonceUnused l signer pr a w7 = (Inl x, w', e8)"
      "res = x"
      "evs = e1 @ e2 @ e3 @ e4 @ e5 @ e6 @ e7 @ e8"
  | (deposit) fa payouts w1 e1 proxy m esc w2 e2 w3 e3 a sg w4 e4 w5 e5 w6 e6 v r s w7 e7 w8 e8 e9 x where
      "extractRefundInfo l pp pr = Some (fa, payouts)"
      "checkFactory l signer fa w = (Inr (), w1, e1)"
      "resolveRelay l signer fa payouts (payTo pr) w1 = (Inr (proxy, m, esc), w2, e2)"
      "checkMerchantRegistered l signer esc m w2 = (Inr (), w3, e3)"
      "extractAuthorization (payload pp) w3 = (Inr (a, sg), w4, e4)"
      "verifyAuthorizationBinding l a proxy w4 = (Inr (), w5, e5)"
      "verifyProxyImmutables l signer proxy pr esc w5 = (Inr (), w6, e6)"
      "decodeSignature l sg w6 = (Inr (v, r, s), w7, e7)"
      "checkNonceUnused l signer pr a w7 = (Inr (), w8, e8)"
      "executeDeposit l signer pr proxy a v r s w8 = (Inl x, w', e9)"
      "res = x"
      "evs = e1 @ e2 @ e3 @ e4 @ e5 @ e6 @ e7 @ e8 @ e9"
  | (completed) fa payouts w1 e1 proxy m esc w2 e2 w3 e3 a sg w4 e4 w5 e5 w6 e6 v r s w7 e7 w8 e8 e9 where
      "extractRefundInfo l pp pr = Some (fa, payouts)"
      "checkFactory l signer fa w = (Inr (), w1, e1)"
      "resolveRelay l signer fa payouts (payTo pr) w1 = (Inr (proxy, m, esc), w2, e2)"
      "checkMerchantRegistered l signer esc m w2 = (Inr (), w3, e3)"
      "extractAuthorization (payload pp) w3 = (Inr (a, sg), w4, e4)"
      "verifyAuthorizationBinding l a proxy w4 = (Inr (), w5, e5)"
      "verifyProxyImmutables l signer proxy pr esc w5 = (Inr (), w6, e6)"
      "decodeSignature l sg w6 = (Inr (v, r, s), w7, e7)"
      "checkNonceUnused l signer pr a w7 = (Inr (), w8, e8)"
      "executeDeposit l signer pr proxy a v r s w8 = (Inr (), w', e9)"
      "res = Return None"
      "evs = e1 @ e2 @ e3 @ e4 @ e5 @ e6 @ e7 @ e8 @ e9"
  using assms unfolding settleWithRefundHelper_def settleSteps_def
proof (cases "settleSteps l pp pr signer w" rule: prod_cases3)
  case (fields r0 w0 e0)
  from fields[unfolded settleSteps_def] show ?thesis
  proof (cases rule: andThenE)
    case (abort x)
    have res: "res = x" "w' = w0" "evs = e0"
      using assms fields abort(2) by (simp_all add: settleWithRefundHelper_def)
    from abort(1) show ?thesis
      by (cases rule: preChecks_cases) (use res that in \<open>auto\<close>)
  next
    case (continue t w1 e1 e2)
    obtain proxy a v r s where t: "t = (proxy, a, v, r, s)" by (cases t)
    have res: "res = (case r0 of Inl x \<Rightarrow> x | Inr u \<Rightarrow> Return None)" "w' = w0" "evs = e1 @ e2"
      using assms fields continue(3)
      by (auto simp: settleWithRefundHelper_def split: sum.splits)
    from continue(1)[unfolded t] show ?thesis
    proof (cases rule: preChecks_cases)
      case (passed fa payouts w1' e1' proxy' m esc w2 e2' w3 e3 a' sg w4 e4 w5 e5 w6 e6 v' r' s' w7 e7 e8)
      show ?thesis
      proof (cases r0)
        case (Inl x)
        show ?thesis
          by (rule that(10)[OF passed(1-9)])
             (use passed(10,11) continue(2) t res Inl in \<open>auto\<close>)
      next
        case (Inr u)
        show ?thesis
          by (rule that(11)[OF passed(1-9)])
             (use passed(10,11) continue(2) t res Inr in \<open>auto\<close>)
      qed
    qed auto
  qed
qed

lemma checkFactory_kinds:
  "checkFactory l signer fa w = (r, w', evs) \<Longrightarrow> kinds evs \<subseteq> {KGetCode}"
  by (drule checkFactory_obs) simp

lemma resolveRelay_kinds:
  "resolveRelay l signer fa payouts payToAddr w = (r, w', evs) \<Longrightarrow>
     kinds evs \<subseteq> {KGetCode, KRead ''MERCHANT_PAYOUT'', KRead ''ESCROW'',
                    KRead ''getRelayAddress'', KWrite ''deployRelay'', KWait, KSleep}"
  by (drule resolveRelay_obs) simp

lemma resolveRelay_ok:
  "resolveRelay l signer fa payouts payToAddr w = (Inr (proxy, m, esc), w', evs) \<Longrightarrow>
     getAddress l payToAddr = Inr proxy \<and> okReads ''ESCROW'' evs = [VString esc]
     \<and> kinds evs \<subseteq> {KGetCode, KRead ''MERCHANT_PAYOUT'', KRead ''ESCROW'',
                    KRead ''getRelayAddress'', KWrite ''deployRelay'', KWait, KSleep}"
  by (drule resolveRelay_obs) auto

lemma checkMerchantRegistered_kinds:
  "checkMerchantRegistered l signer esc m w = (r, w', evs) \<Longrightarrow>
     kinds evs \<subseteq> {KRead ''registeredMerchants'', KSleep}"
  by (drule checkMerchantRegistered_obs) simp

lemma extractAuthorization_ok:
  "extractAuthorization p w = (Inr (a, s), w', evs) \<Longrightarrow>
     evs = [] \<and> w' = w \<and> authorization p = Some a \<and> signature p = Some s \<and> s \<noteq> []"
  by (drule extractAuthorization_obs) auto

lemma extractAuthorization_abort:
  "extractAuthorization p w = (Inl x, w', evs) \<Longrightarrow>
     evs = [] \<and> w' = w \<and> x = Return None
     \<and> (authorization p = None \<or> signature p = None \<or> signature p = Some [])"
  by (drule extractAuthorization_obs) auto

lemma verifyAuthorizationBinding_ok:
  "verifyAuthorizationBinding l a proxy w = (Inr (), w', evs) \<Longrightarrow>
     evs = [] \<and> w' = w \<and> getAddress l (auth_to a) = Inr proxy"
  by (drule verifyAuthorizationBinding_obs) (auto split: sum.splits if_splits)

lemma verifyProxyImmutables_kinds:
  "verifyProxyImmutables l signer proxy pr esc w = (r, w', evs) \<Longrightarrow>
     kinds evs \<subseteq> {KRead ''TOKEN'', KRead ''ESCROW'', KSleep}"
  by (drule verifyProxyImmutables_obs) simp

lemma decodeSignature_nil:
  "decodeSignature l sg w = (r, w', evs) \<Longrightarrow> evs = []"
  by (drule decodeSignature_obs) simp

lemma checkNonceUnused_kinds:
  "checkNonceUnused l signer pr a w = (r, w', evs) \<Longrightarrow>
     kinds evs \<subseteq> {KRead ''authorizationState'', KSleep}"
  by (drule checkNonceUnused_obs) simp

lemma executeDeposit_kinds:
  "executeDeposit l signer pr proxy a v r s w = (res, w', evs) \<Longrightarrow>
     kinds evs \<subseteq> {KWrite ''executeDeposit'', KWait, KSleep}"
  by (drule executeDeposit_obs) simp

lemmas phase_kinds = checkFactory_kinds resolveRelay_kinds checkMerchantRegistered_kinds
  verifyProxyImmutables_kinds checkNonceUnused_kinds executeDeposit_kinds

lemmas later_kinds = checkFactory_kinds checkMerchantRegistered_kinds
  verifyProxyImmutables_kinds checkNonceUnused_kinds executeDeposit_kinds



lemma beforeWrite_append:
  "beforeWrite fn (xs @ ys) =
     (if writesOf fn xs \<noteq> [] then beforeWrite fn xs else xs @ beforeWrite fn ys)"
  by (induction fn xs rule: beforeWrite.induct) auto

lemma verifyAuthorizationBinding_nil:
  "verifyAuthorizationBinding l a proxy w = (r, w', evs) \<Longrightarrow> evs = []"
  by (drule verifyAuthorizationBinding_obs) simp

lemma extractAuthorization_nil:
  "extractAuthorization p w = (r, w', evs) \<Longrightarrow> evs = []"
  by (drule extractAuthorization_obs) simp

lemmas later_nil = extractAuthorization_nil verifyAuthorizationBinding_nil decodeSignature_nil

text \<open>
  A coarser view of a run: it ends before the relay is resolved, or the relay is resolved
  and what follows only reads the escrow, the proxy and the token and writes the deposit.
\<close>

lemma settle_cases_resolved:
  assumes "settleWithRefundHelper l pp pr signer w = (res, w', evs)"
  obtains
    (notApplicable) "extractRefundInfo l pp pr = None" "res = Return None" "w' = w" "evs = []"
  | (factory) fa payouts e1 x where
      "extractRefundInfo l pp pr = Some (fa, payouts)"
      "checkFactory l signer fa w = (Inl x, w', e1)"
      "res = x"
      "evs = e1"
  | (resolve) fa payouts w1 e1 e2 x where
      "extractRefundInfo l pp pr = Some (fa, payouts)"
      "checkFactory l signer fa w = (Inr (), w1, e1)"
      "resolveRelay l signer fa payouts (payTo pr) w1 = (Inl x, w', e2)"
      "res = x"
      "evs = e1 @ e2"
  | (resolved) fa payouts w1 e1 proxy m esc w2 e2 rest where
      "extractRefundInfo l pp pr = Some (fa, payouts)"
      "checkFactory l signer fa w = (Inr (), w1, e1)"
      "resolveRelay l signer fa payouts (payTo pr) w1 = (Inr (proxy, m, esc), w2, e2)"
      "evs = e1 @ e2 @ rest"
      "kinds rest \<subseteq> {KRead ''registeredMerchants'', KRead ''TOKEN'', KRead ''ESCROW'',
                      KRead ''authorizationState'', KWrite ''executeDeposit'', KWait, KSleep}"
  using assms
proof (cases rule: settle_cases)
  case notApplicable
  then show ?thesis using that(1) by simp
next
  case (factory fa payouts e1 x)
  then show ?thesis using that(2) by simp
next
  case (resolve fa payouts w1 e1 e2 x)
  then show ?thesis using that(3) by simp
next
  case (registration fa payouts w1 e1 proxy m esc w2 e2 e3 x)
  show ?thesis
    by (rule that(4)[OF registration(1,2,3), of e3])
       (use registration in \<open>auto dest!: later_kinds later_nil simp: trace_simps\<close>)
next
  case (noPayload fa payouts w1 e1 proxy m esc w2 e2 w3 e3 e4 x)
  show ?thesis
    by (rule that(4)[OF noPayload(1,2,3), of "e3 @ e4"])
       (use noPayload in \<open>auto dest!: later_kinds later_nil simp: trace_simps\<close>)
next
  case (binding fa payouts w1 e1 proxy m esc w2 e2 w3 e3 a sg w4 e4 e5 x)
  show ?thesis
    by (rule that(4)[OF binding(1,2,3), of "e3 @ e4 @ e5"])
       (use binding in \<open>auto dest!: later_kinds later_nil simp: trace_simps\<close>)
next
  case (immutables fa payouts w1 e1 proxy m esc w2 e2 w3 e3 a sg w4 e4 w5 e5 e6 x)
  show ?thesis
    by (rule that(4)[OF immutables(1,2,3), of "e3 @ e4 @ e5 @ e6"])
       (use immutables in \<open>auto dest!: later_kinds later_nil simp: trace_simps\<close>)
next
  case (signature fa payouts w1 e1 proxy m esc w2 e2 w3 e3 a sg w4 e4 w5 e5 w6 e6 e7 x)
  show ?thesis
    by (rule that(4)[OF signature(1,2,3), of "e3 @ e4 @ e5 @ e6 @ e7"])
       (use signature in \<open>auto dest!: later_kinds later_nil simp: trace_simps\<close>)
next
  case (nonce fa payouts w1 e1 proxy m esc w2 e2 w3 e3 a sg w4 e4 w5 e5 w6 e6 v r s w7 e7 e8 x)
  show ?thesis
    by (rule that(4)[OF nonce(1,2,3), of "e3 @ e4 @ e5 @ e6 @ e7 @ e8"])
       (use nonce in \<open>auto dest!: later_kinds later_nil simp: trace_simps\<close>)
next
  case (deposit fa payouts w1 e1 proxy m esc w2 e2 w3 e3 a sg w4 e4 w5 e5 w6 e6 v r s w7 e7 w8 e8 e9 x)
  show ?thesis
    by (rule that(4)[OF deposit(1,2,3), of "e3 @ e4 @ e5 @ e6 @ e7 @ e8 @ e9"])
       (use deposit in \<open>auto dest!: later_kinds later_nil simp: trace_simps\<close>)
next
  case (completed fa payouts w1 e1 proxy m esc w2 e2 w3 e3 a sg w4 e4 w5 e5 w6 e6 v r s w7 e7 w8 e8 e9)
  show ?thesis
    by (rule that(4)[OF completed(1,2,3), of "e3 @ e4 @ e5 @ e6 @ e7 @ e8 @ e9"])
       (use completed in \<open>auto dest!: later_kinds later_nil simp: trace_simps\<close>)
qed

section \<open>The calls of a run\<close>

lemma calls_append [simp]: "calls (xs @ ys) = calls xs @ calls ys"
  by (induction xs rule: calls.induct) auto

lemma okReadsOf_append [simp]: "okReadsOf c (xs @ ys) = okReadsOf c xs @ okReadsOf c ys"
  by (induction c xs rule: okReadsOf.induct) auto

lemma calls_kinds:
  "c \<in> set (calls evs) \<Longrightarrow> KRead (functionName c) \<in> kinds evs \<or> KWrite (functionName c) \<in> kinds evs"
  by (induction evs rule: calls.induct) auto

lemma okReadsOf_nokind: "KRead (functionName c) \<notin> kinds evs \<Longrightarrow> okReadsOf c evs = []"
  by (induction c evs rule: okReadsOf.induct) auto

lemma okReadsOf_okReads:
  "(\<forall>c'\<in>set (calls evs). functionName c' = functionName c \<longrightarrow> c' = c)
   \<Longrightarrow> okReadsOf c evs = okReads (functionName c) evs"
  by (induction c evs rule: okReadsOf.induct) auto

lemma calls_beforeWrite: "set (calls (beforeWrite fn evs)) \<subseteq> set (calls evs)"
  by (induction fn evs rule: beforeWrite.induct) auto

lemma readContractLoop_calls:
  assumes "readContractLoop (readContractOp tag f) c m k lastError w = (r, w', evs)"
  shows "set (calls evs) \<subseteq> {c}"
  using assms
proof (induction "readContractOp tag f" c m k lastError w arbitrary: r w' evs
       rule: readContractLoop.induct)
  case (1 a maxRetries attempt lastError w)
  obtain r0 w1 where f: "f a w = (r0, w1)" by (cases "f a w")
  have ro: "readContractOp tag f a w = (r0, w1, [ERead a (map_sum id tag r0)])"
    using f by (simp add: readContractOp_def)
  show ?case
  proof (cases "attempt \<le> maxRetries")
    case False
    then show ?thesis using 1(2) by (simp add: readContractLoop.simps[of _ a])
  next
    case True
    show ?thesis
    proof (cases r0)
      case (Inr v)
      with 1(2) ro True show ?thesis
        by (auto simp add: readContractLoop.simps[of _ a])
    next
      case (Inl error)
      show ?thesis
      proof (cases "isRateLimitError error \<and> attempt < maxRetries")
        case False
        with 1(2) ro Inl True show ?thesis
          by (auto simp add: readContractLoop.simps[of _ a] split: if_splits)
      next
        case rl: True
        obtain r2 w2 e2 where rec:
          "readContractLoop (readContractOp tag f) a maxRetries (attempt + 1) error w1 = (r2, w2, e2)"
          by (cases "readContractLoop (readContractOp tag f) a maxRetries (attempt + 1) error w1")
        have ro': "readContractOp tag f a w = (Inl error, w1, [ERead a (Inl error)])"
          using ro Inl by simp
        have IH: "set (calls e2) \<subseteq> {a}"
          using 1(1)[OF True ro'[symmetric] _ _ _ _ rec] rl by simp
        have "evs = ERead a (Inl error) # ESleep (min (1000 * 2 ^ nat attempt) 16000) # e2"
          using 1(2) True rl ro' rec by (simp add: readContractLoop.simps[of _ a _ attempt])
        then show ?thesis using IH by auto
      qed
    qed
  qed
qed

lemma readString_calls:
  "readContractWithRetry (readString signer) c 5 w = (r, w', evs) \<Longrightarrow> \<forall>c'\<in>set (calls evs). c' = c"
  unfolding readContractWithRetry_def readString_def by (drule readContractLoop_calls) auto

lemma readBool_calls:
  "readContractWithRetry (readBool signer) c 5 w = (r, w', evs) \<Longrightarrow> \<forall>c'\<in>set (calls evs). c' = c"
  unfolding readContractWithRetry_def readBool_def by (drule readContractLoop_calls) auto

lemma calls_quiet: "kinds evs \<subseteq> {KGetCode, KWait, KSleep} \<Longrightarrow> calls evs = []"
  by (induction evs rule: calls.induct) auto

lemma pollCode_calls:
  "pollCode signer proxy i code0 w = (r, w', evs) \<Longrightarrow> calls evs = []"
  by (drule pollCode_obs) (auto intro: calls_quiet)

lemma resolveMerchant_calls:
  assumes "resolveMerchant signer payouts proxy relayExists w = (r, w', evs)"
  shows "set (calls evs) \<subseteq> {proxyCall proxy ''MERCHANT_PAYOUT'', proxyCall proxy ''ESCROW''}"
  using assms unfolding resolveMerchant_def
  by (cases relayExists)
     (auto simp: Let_def elim!: tryCatchE andThenE dest!: readString_calls
           split: if_splits sum.splits option.splits)

lemma confirmRelayDeployed_calls:
  assumes "confirmRelayDeployed signer fa mp proxy txHash w = (r, w', evs)"
  shows "set (calls evs) \<subseteq> {relayAddressCall fa mp, proxyCall proxy ''ESCROW''}"
  using assms unfolding confirmRelayDeployed_def
  by (auto elim!: andThenE dest!: readString_calls pollCode_calls
           split: if_splits sum.splits)


lemma writeContractOp_calls:
  "writeContractOp signer c w = (r, w', evs) \<Longrightarrow> calls evs = [c]"
  by (auto simp: writeContractOp_def split: prod.splits)

lemma waitForTransactionReceiptOp_calls:
  "waitForTransactionReceiptOp signer h w = (r, w', evs) \<Longrightarrow> calls evs = []"
  by (auto simp: waitForTransactionReceiptOp_def split: prod.splits)

lemma submitDeployRelay_calls:
  assumes "submitDeployRelay signer fa mp proxy w = (r, w', evs)"
  shows "set (calls evs)
           \<subseteq> {\<lparr>address = fa, functionName = ''deployRelay'', args = [AString mp]\<rparr>,
               relayAddressCall fa mp, proxyCall proxy ''ESCROW''}"
  using assms unfolding submitDeployRelay_def
  by (auto elim!: andThenE
           dest!: confirmRelayDeployed_calls writeContractOp_calls waitForTransactionReceiptOp_calls
           split: if_splits sum.splits)

lemma deployRelayFailed_calls:
  "deployRelayFailed signer error w = (r, w', evs) \<Longrightarrow> calls evs = []"
  by (drule deployRelayFailed_obs) simp

lemma deployRelay_calls:
  assumes "deployRelay l signer fa m proxy w = (r, w', evs)"
  shows "calls evs = []
       \<or> (\<exists>f mp. getAddress l fa = Inr f \<and> getAddress l m = Inr mp
             \<and> set (calls evs)
                 \<subseteq> {\<lparr>address = f, functionName = ''deployRelay'', args = [AString mp]\<rparr>,
                     relayAddressCall f mp, proxyCall proxy ''ESCROW''})"
  using assms unfolding deployRelay_def
  apply (elim tryCatchE andThenE)
  apply (auto dest!: readString_calls deployRelayFailed_calls submitDeployRelay_calls
              split: if_splits sum.splits)
  done

lemma afterProbe_calls:
  assumes "afterProbe l signer fa payouts proxy code w = (r, w', evs)"
  shows "\<forall>c\<in>set (calls evs).
           c = proxyCall proxy ''MERCHANT_PAYOUT'' \<or> c = proxyCall proxy ''ESCROW''
         \<or> (\<exists>m f mp. lookupMerchantPayout payouts proxy = Some m
               \<and> getAddress l fa = Inr f \<and> getAddress l m = Inr mp
               \<and> (c = relayAddressCall f mp
                  \<or> c = \<lparr>address = f, functionName = ''deployRelay'', args = [AString mp]\<rparr>))"
proof (cases "hasCode code")
  case True
  then show ?thesis
    using assms unfolding afterProbe_def
    by (auto elim!: andThenE dest!: resolveMerchant_calls requireEscrow_obs)
next
  case False
  from assms[unfolded afterProbe_def] show ?thesis
  proof (cases rule: andThenE)
    case (abort x)
    then show ?thesis using resolveMerchant_calls[OF abort(1)] by auto
  next
    case (continue t w1 e1 e2)
    obtain m esc0 where t: "t = (m, esc0)" by (cases t)
    from resolveMerchant_obs[OF continue(1)[unfolded t]] False
    have e1: "e1 = []" and m: "lookupMerchantPayout payouts proxy = Some m" by auto
    from continue(2)[unfolded t] False
    have "\<exists>r1 w2 e3 e4. deployRelay l signer fa m proxy w1 = (r1, w2, e3) \<and> e2 = e3 @ e4
            \<and> calls e4 = []"
      by (auto elim!: andThenE dest!: requireEscrow_obs)
    then obtain r1 w2 e3 e4 where d: "deployRelay l signer fa m proxy w1 = (r1, w2, e3)"
        and e2: "e2 = e3 @ e4" "calls e4 = []" by blast
    from deployRelay_calls[OF d] show ?thesis
      using continue(3) e1 e2 m by auto
  qed
qed

lemma resolveRelay_calls:
  assumes "resolveRelay l signer fa payouts payToAddr w = (r, w', evs)"
      and "getAddress l payToAddr = Inr proxy"
  shows "\<forall>c\<in>set (calls evs).
           c = proxyCall proxy ''MERCHANT_PAYOUT'' \<or> c = proxyCall proxy ''ESCROW''
         \<or> (\<exists>m f mp. lookupMerchantPayout payouts proxy = Some m
               \<and> getAddress l fa = Inr f \<and> getAddress l m = Inr mp
               \<and> (c = relayAddressCall f mp
                  \<or> c = \<lparr>address = f, functionName = ''deployRelay'', args = [AString mp]\<rparr>))"
  using assms unfolding resolveRelay_def
  by (auto elim!: andThenE dest!: getCodeOp_run afterProbe_calls split: sum.splits)

lemma verifyProxyImmutables_calls:
  assumes "verifyProxyImmutables l signer proxy pr esc w = (r, w', evs)"
  shows "set (calls evs) \<subseteq> {proxyCall proxy ''TOKEN'', proxyCall proxy ''ESCROW''}"
  using assms unfolding verifyProxyImmutables_def
  by (auto elim!: tryCatchE andThenE dest!: readString_calls split: if_splits sum.splits)

lemma verifyProxyImmutables_passed:
  assumes "verifyProxyImmutables l signer proxy pr esc w = (Inr (), w', evs)"
  shows "\<exists>t tn pe. okReads ''TOKEN'' evs = [VString t] \<and> getAddress l t = Inr tn
            \<and> getAddress l (asset pr) = Inr tn
            \<and> okReads ''ESCROW'' evs = [VString pe] \<and> toLowerCase pe = toLowerCase esc"
  using assms unfolding verifyProxyImmutables_def
  by (auto elim!: tryCatchE andThenE dest!: readString_obs
           simp: proxyCall_def trace_simps split: if_splits sum.splits)


lemma linearBackoffTrace_idle:
  "0 < n \<Longrightarrow> linearBackoffTrace k (replicate (Suc n) [])
     = ESleep (1000 * (int k + 1)) # linearBackoffTrace (Suc k) (replicate n [])"
  by (cases n) simp_all

lemma executeDepositLoop_idle:
  assumes body: "\<And>w res w' evs. body w = (res, w', evs) \<Longrightarrow>
                   res = Inl (Throw e0) \<and> evs = [] \<and> w' = w"
      and run: "executeDepositLoop body 5 k lastError w = (r, w', evs)"
      and k: "0 \<le> k" "k \<le> 5"
  shows "r = Inr e0 \<and> evs = linearBackoffTrace (nat k) (replicate (nat (6 - k)) [])"
  using body run k
proof (induction body "5::int" k lastError w arbitrary: r w' evs rule: executeDepositLoop.induct)
  case (1 body attempt lastError w)
  note bodyP = "1.prems"(1)
  note runP = "1.prems"(2)
  note kP = "1.prems"(3,4)
  obtain r0 w1 e1 where b: "body w = (r0, w1, e1)" by (cases "body w") auto
  from bodyP[OF b] have b': "r0 = Inl (Throw e0)" "e1 = []" "w1 = w" by auto
  show ?case
  proof (cases "attempt \<ge> 5")
    case True
    then have "attempt = 5" using kP by simp
    then show ?thesis
      using runP b b' by (auto simp: executeDepositLoop.simps[of body])
  next
    case False
    obtain r2 w2 e2 where rec: "executeDepositLoop body 5 (attempt + 1) e0 w1 = (r2, w2, e2)"
      by (cases "executeDepositLoop body 5 (attempt + 1) e0 w1") auto
    have IH: "r2 = Inr e0
              \<and> e2 = linearBackoffTrace (nat (attempt + 1)) (replicate (nat (6 - (attempt + 1))) [])"
      using "1.hyps"(1)[OF _ b[symmetric] b'(1) refl refl _ bodyP rec] kP False by auto
    have res: "r = r2" "evs = ESleep ((attempt + 1) * 1000) # e2"
      using runP kP b b' False rec by (auto simp: executeDepositLoop.simps[of body])
    have n: "nat (6 - attempt) = Suc (nat (6 - (attempt + 1)))" "0 < nat (6 - (attempt + 1))"
      "nat (attempt + 1) = Suc (nat attempt)"
      using kP False by auto
    show ?thesis
      using res IH kP unfolding n(1) linearBackoffTrace_idle[OF n(2)] n(3)
      by (simp add: algebra_simps)
  qed
qed

lemma executeDepositLoop_calls:
  assumes body: "\<And>w res w' evs. body w = (res, w', evs) \<Longrightarrow> \<forall>c'\<in>set (calls evs). c' = c"
      and run: "executeDepositLoop body m k lastError w = (r, w', evs)"
  shows "\<forall>c'\<in>set (calls evs). c' = c"
  using body run
proof (induction body m k lastError w arbitrary: r w' evs rule: executeDepositLoop.induct)
  case (1 body maxRetries attempt lastError w)
  note bodyP = "1.prems"(1)
  note runP = "1.prems"(2)
  obtain r0 w1 e1 where b: "body w = (r0, w1, e1)" by (cases "body w") auto
  note c1 = bodyP[OF b]
  show ?case
  proof (cases "attempt \<le> maxRetries")
    case False
    then show ?thesis using runP by (simp add: executeDepositLoop.simps[of body])
  next
    case True
    show ?thesis
    proof (cases r0)
      case (Inr u)
      obtain r2 w2 e2 where rec:
        "executeDepositLoop body maxRetries (attempt + 1) lastError w1 = (r2, w2, e2)"
        by (cases "executeDepositLoop body maxRetries (attempt + 1) lastError w1") auto
      have "\<forall>c'\<in>set (calls e2). c' = c"
        using "1.IH"(2)[OF True b[symmetric] Inr refl bodyP rec] .
      then show ?thesis
        using runP True b Inr rec c1 by (auto simp: executeDepositLoop.simps[of body])
    next
      case (Inl x)
      show ?thesis
      proof (cases x)
        case (Return y)
        then show ?thesis
          using runP True b Inl c1 by (auto simp: executeDepositLoop.simps[of body])
      next
        case (Throw error)
        show ?thesis
        proof (cases "attempt \<ge> maxRetries")
          case True
          then show ?thesis
            using runP \<open>attempt \<le> maxRetries\<close> b Inl Throw c1
            by (auto simp: executeDepositLoop.simps[of body])
        next
          case False
          obtain r2 w2 e2 where rec:
            "executeDepositLoop body maxRetries (attempt + 1) error w1 = (r2, w2, e2)"
            by (cases "executeDepositLoop body maxRetries (attempt + 1) error w1") auto
          have "\<forall>c'\<in>set (calls e2). c' = c"
            using "1.IH"(1)[OF \<open>attempt \<le> maxRetries\<close> b[symmetric] Inl Throw refl False bodyP rec] .
          then show ?thesis
            using runP True b Inl Throw False rec c1
            by (auto simp: executeDepositLoop.simps[of body])
        qed
      qed
    qed
  qed
qed

lemma executeDepositAttempt_calls:
  assumes "executeDepositAttempt l signer pr proxy a v r s w = (res, w', evs)"
      and "depositCall l proxy a v r s = Inr c"
  shows "\<forall>c'\<in>set (calls evs). c' = c"
  using assms unfolding executeDepositAttempt_def
  by (auto elim!: andThenE dest!: writeContractOp_calls waitForTransactionReceiptOp_calls
           split: sum.splits if_splits)

lemma beforeWrite_attempts:
  assumes "attempts \<noteq> []" and "list_all isAttempt attempts"
  shows "beforeWrite ''executeDeposit'' (linearBackoffTrace k attempts @ es) = []"
proof -
  obtain a as where as: "attempts = a # as" using assms(1) by (cases attempts) auto
  then have "isAttempt a" using assms(2) by simp
  then obtain c r rest where "a = EWrite c r # rest" "functionName c = ''executeDeposit''"
    by (induction a rule: isAttempt.induct) auto
  then show ?thesis unfolding as by (cases as) auto
qed

lemma executeDeposit_trace:
  assumes "executeDeposit l signer pr proxy a v r s w = (res, w', evs)"
  shows "case depositCall l proxy a v r s of
           Inl e \<Rightarrow> evs = linearBackoffTrace 0 (replicate 6 [])
                    \<and> res = Inl (Throw (newError (executionFailureMessage e)))
         | Inr c \<Rightarrow>
             (\<exists>attempts. evs = linearBackoffTrace 0 attempts \<and> attempts \<noteq> []
                \<and> length attempts \<le> 6 \<and> list_all isAttempt attempts
                \<and> length (writesOf ''executeDeposit'' evs) = length attempts
                \<and> (\<forall>c'\<in>set (calls evs). c' = c)
                \<and> (case attemptError (last evs) of
                      Some e \<Rightarrow> res = Inl (Throw (newError (executionFailureMessage e)))
                                \<and> length attempts = 6
                    | None \<Rightarrow> (\<exists>h. res = Inl (Return (Some \<lparr>success = True, transaction = h,
                                   response_network = network pr, payer = auth_from a\<rparr>)))))"
proof -
  let ?body = "executeDepositAttempt l signer pr proxy a v r s"
  from assms obtain r1 w1 e1 where
    loop: "executeDepositLoop ?body 5 0 JUndefined w = (r1, w1, e1)"
    and fin: "(\<exists>x. r1 = Inl x \<and> res = Inl x \<and> evs = e1)
              \<or> (\<exists>e. r1 = Inr e \<and> res = Inl (Throw (newError (executionFailureMessage e)))
                     \<and> evs = e1)"
    unfolding executeDeposit_def by (auto elim!: andThenE)
  show ?thesis
  proof (cases "depositCall l proxy a v r s")
    case (Inl e0)
    have "r1 = Inr e0 \<and> e1 = linearBackoffTrace (nat 0) (replicate (nat (6 - 0)) [])"
      by (rule executeDepositLoop_idle[OF _ loop])
         (auto dest: executeDepositAttempt_failed_args[OF _ Inl])
    then show ?thesis using fin Inl by (auto simp: eval_nat_numeral)
  next
    case (Inr c)
    let ?resp = "\<lambda>h. \<lparr>success = True, transaction = h,
                        response_network = network pr, payer = auth_from a\<rparr>"
    have "\<exists>attempts. e1 = linearBackoffTrace (nat 0) attempts \<and> attempts \<noteq> []
           \<and> int (length attempts) \<le> 6 - 0 \<and> list_all isAttempt attempts
           \<and> length (writesOf ''executeDeposit'' e1) = length attempts
           \<and> ((\<exists>h. r1 = Inl (Return (Some (?resp h))) \<and> attemptError (last e1) = None)
               \<or> (\<exists>e. r1 = Inr e \<and> attemptError (last e1) = Some e
                      \<and> int (length attempts) = 6 - 0))"
      by (rule executeDepositLoop_attempts[OF _ loop])
         (auto dest: executeDepositAttempt_obs[OF _ Inr])
    then obtain attempts where A: "e1 = linearBackoffTrace 0 attempts" "attempts \<noteq> []"
        "length attempts \<le> 6" "list_all isAttempt attempts"
        "length (writesOf ''executeDeposit'' e1) = length attempts"
        "(\<exists>h. r1 = Inl (Return (Some (?resp h))) \<and> attemptError (last e1) = None)
               \<or> (\<exists>e. r1 = Inr e \<and> attemptError (last e1) = Some e \<and> length attempts = 6)"
      by auto
    have ev: "evs = e1" using fin by auto
    have cs: "\<forall>c'\<in>set (calls e1). c' = c"
      by (rule executeDepositLoop_calls[OF _ loop]) (rule executeDepositAttempt_calls[OF _ Inr])
    have out: "case attemptError (last evs) of
                 Some e \<Rightarrow> res = Inl (Throw (newError (executionFailureMessage e)))
                           \<and> length attempts = 6
               | None \<Rightarrow> (\<exists>h. res = Inl (Return (Some (?resp h))))"
      using A(6) fin ev by auto
    show ?thesis
      unfolding Inr sum.case
      by (rule exI[of _ attempts]) (use A(1-5) ev cs out in \<open>simp\<close>)
  qed
qed


text \<open>
  Every contract call of a run, by its name: the proxy's immutables are read at the proxy
  address, and the factory is asked and told about the merchant of the extension's map.
\<close>

lemma settle_calls:
  assumes run: "settleWithRefundHelper l pp pr signer w = (res, w', evs)"
      and proxy: "getAddress l (payTo pr) = Inr proxyAddress"
      and c: "c \<in> set (calls evs)"
  shows "(functionName c = ''TOKEN'' \<longrightarrow> c = proxyCall proxyAddress ''TOKEN'')
       \<and> (functionName c = ''ESCROW'' \<longrightarrow> c = proxyCall proxyAddress ''ESCROW'')
       \<and> (functionName c = ''MERCHANT_PAYOUT'' \<longrightarrow> c = proxyCall proxyAddress ''MERCHANT_PAYOUT'')
       \<and> (functionName c = ''getRelayAddress'' \<or> functionName c = ''deployRelay'' \<longrightarrow>
            (\<exists>fa payouts m f mp. extractRefundInfo l pp pr = Some (fa, payouts)
               \<and> lookupMerchantPayout payouts proxyAddress = Some m
               \<and> getAddress l fa = Inr f \<and> getAddress l m = Inr mp
               \<and> c = \<lparr>address = f, functionName = functionName c, args = [AString mp]\<rparr>))"
    (is ?P)
proof -
  define Q where "Q \<longleftrightarrow> ?P"
  have other: "Q" if "c \<in> set (calls e)"
      "kinds e \<subseteq> {KGetCode, KRead ''registeredMerchants'', KRead ''authorizationState'',
                    KWrite ''executeDeposit'', KWait, KSleep}" for e
  proof -
    have "KRead (functionName c) \<in> kinds e \<or> KWrite (functionName c) \<in> kinds e"
      using calls_kinds[OF that(1)] .
    then have "functionName c = ''registeredMerchants'' \<or> functionName c = ''authorizationState''
               \<or> functionName c = ''executeDeposit''"
      using that(2) by blast
    then show ?thesis unfolding Q_def by (elim disjE) simp_all
  qed
  have F1: "Q" if "checkFactory l signer fa w0 = (r0, w1, e)" "c \<in> set (calls e)" for fa w0 r0 w1 e
    using other[OF that(2)] checkFactory_kinds[OF that(1)] by blast
  have F3: "Q" if "checkMerchantRegistered l signer esc m w0 = (r0, w1, e)" "c \<in> set (calls e)"
    for esc m w0 r0 w1 e
    using other[OF that(2)] checkMerchantRegistered_kinds[OF that(1)] by blast
  have F8: "Q" if "checkNonceUnused l signer pr a w0 = (r0, w1, e)" "c \<in> set (calls e)"
    for a w0 r0 w1 e
    using other[OF that(2)] checkNonceUnused_kinds[OF that(1)] by blast
  have F9: "Q" if "executeDeposit l signer pr p a v r s w0 = (r0, w1, e)" "c \<in> set (calls e)"
    for p a v r s w0 r0 w1 e
    using other[OF that(2)] executeDeposit_kinds[OF that(1)] by blast
  have F2: "Q" if "extractRefundInfo l pp pr = Some (fa, payouts)"
      "resolveRelay l signer fa payouts (payTo pr) w0 = (r0, w1, e)" "c \<in> set (calls e)"
    for fa payouts w0 r0 w1 e
  proof -
    from resolveRelay_calls[OF that(2) proxy] that(3)
    consider "c = proxyCall proxyAddress ''MERCHANT_PAYOUT''"
      | "c = proxyCall proxyAddress ''ESCROW''"
      | m f mp where "lookupMerchantPayout payouts proxyAddress = Some m"
          "getAddress l fa = Inr f" "getAddress l m = Inr mp"
          "c = relayAddressCall f mp
           \<or> c = \<lparr>address = f, functionName = ''deployRelay'', args = [AString mp]\<rparr>"
      by blast
    then show ?thesis
    proof cases
      case 1
      then show ?thesis unfolding Q_def by (simp add: proxyCall_def)
    next
      case 2
      then show ?thesis unfolding Q_def by (simp add: proxyCall_def)
    next
      case 3
      have n: "functionName c \<noteq> ''TOKEN''" "functionName c \<noteq> ''ESCROW''"
        "functionName c \<noteq> ''MERCHANT_PAYOUT''"
        "c = \<lparr>address = f, functionName = functionName c, args = [AString mp]\<rparr>"
        using 3(4) by (auto simp: relayAddressCall_def)
      show ?thesis
        unfolding Q_def using n that(1) 3(1,2,3) by blast
    qed
  qed
  have F6: "Q" if "verifyProxyImmutables l signer proxyAddress pr esc w0 = (r0, w1, e)"
      "c \<in> set (calls e)" for esc w0 r0 w1 e
  proof -
    have "c = proxyCall proxyAddress ''TOKEN'' \<or> c = proxyCall proxyAddress ''ESCROW''"
      using verifyProxyImmutables_calls[OF that(1)] that(2) by blast
    then show ?thesis unfolding Q_def by (elim disjE) (simp_all add: proxyCall_def)
  qed
  from run have Q
  proof (cases rule: settle_cases)
    case notApplicable
    then show ?thesis using c by simp
  next
    case (factory fa payouts e1 x)
    then show ?thesis using c F1 by blast
  next
    case (resolve fa payouts w1 e1 e2 x)
    then show ?thesis using c F1[OF resolve(2)] F2[OF resolve(1,3)] by auto
  next
    case (registration fa payouts w1 e1 proxy' m esc w2 e2 e3 x)
    then show ?thesis
      using c F1[OF registration(2)] F2[OF registration(1,3)] F3[OF registration(4)] by auto
  next
    case (noPayload fa payouts w1 e1 proxy' m esc w2 e2 w3 e3 e4 x)
    then show ?thesis
      using c F1[OF noPayload(2)] F2[OF noPayload(1,3)] F3[OF noPayload(4)]
      by (auto dest!: later_nil)
  next
    case (binding fa payouts w1 e1 proxy' m esc w2 e2 w3 e3 a sg w4 e4 e5 x)
    then show ?thesis
      using c F1[OF binding(2)] F2[OF binding(1,3)] F3[OF binding(4)]
      by (auto dest!: later_nil)
  next
    case (immutables fa payouts w1 e1 proxy' m esc w2 e2 w3 e3 a sg w4 e4 w5 e5 e6 x)
    have p: "proxy' = proxyAddress" using resolveRelay_ok[OF immutables(3)] proxy by simp
    show ?thesis
      using c immutables(9) F1[OF immutables(2)] F2[OF immutables(1,3)] F3[OF immutables(4)]
        F6[OF immutables(7)[unfolded p]] immutables(5,6)
      by (auto dest!: later_nil)
  next
    case (signature fa payouts w1 e1 proxy' m esc w2 e2 w3 e3 a sg w4 e4 w5 e5 w6 e6 e7 x)
    have p: "proxy' = proxyAddress" using resolveRelay_ok[OF signature(3)] proxy by simp
    show ?thesis
      using c signature(10) F1[OF signature(2)] F2[OF signature(1,3)] F3[OF signature(4)]
        F6[OF signature(7)[unfolded p]] signature(5,6,8)
      by (auto dest!: later_nil)
  next
    case (nonce fa payouts w1 e1 proxy' m esc w2 e2 w3 e3 a sg w4 e4 w5 e5 w6 e6 v r s w7 e7 e8 x)
    have p: "proxy' = proxyAddress" using resolveRelay_ok[OF nonce(3)] proxy by simp
    show ?thesis
      using c nonce(11) F1[OF nonce(2)] F2[OF nonce(1,3)] F3[OF nonce(4)]
        F6[OF nonce(7)[unfolded p]] F8[OF nonce(9)] nonce(5,6,8)
      by (auto dest!: later_nil)
  next
    case (deposit fa payouts w1 e1 proxy' m esc w2 e2 w3 e3 a sg w4 e4 w5 e5 w6 e6 v r s w7 e7 w8 e8 e9 x)
    have p: "proxy' = proxyAddress" using resolveRelay_ok[OF deposit(3)] proxy by simp
    show ?thesis
      using c deposit(12) F1[OF deposit(2)] F2[OF deposit(1,3)] F3[OF deposit(4)]
        F6[OF deposit(7)[unfolded p]] F8[OF deposit(9)] F9[OF deposit(10)] deposit(5,6,8)
      by (auto dest!: later_nil)
  next
    case (completed fa payouts w1 e1 proxy' m esc w2 e2 w3 e3 a sg w4 e4 w5 e5 w6 e6 v r s w7 e7 w8 e8 e9)
    have p: "proxy' = proxyAddress" using resolveRelay_ok[OF completed(3)] proxy by simp
    show ?thesis
      using c completed(12) F1[OF completed(2)] F2[OF completed(1,3)] F3[OF completed(4)]
        F6[OF completed(7)[unfolded p]] F8[OF completed(9)] F9[OF completed(10)] completed(5,6,8)
      by (auto dest!: later_nil)
  qed
  then show ?thesis unfolding Q_def .
qed


lemma kinds_idle: "kinds (linearBackoffTrace k (replicate n [])) \<subseteq> {KSleep}"
proof (induction n arbitrary: k)
  case 0
  then show ?case by simp
next
  case (Suc n)
  then show ?case by (cases n) auto
qed

lemma deposit_preceded:
  assumes run: "settleWithRefundHelper l pp pr signer w = (res, w', evs)"
      and ne: "writesOf ''executeDeposit'' evs \<noteq> []"
  shows "\<exists>proxy t tn esc pe. getAddress l (payTo pr) = Inr proxy
           \<and> okReads ''TOKEN'' (beforeWrite ''executeDeposit'' evs) = [VString t]
           \<and> getAddress l t = Inr tn \<and> getAddress l (asset pr) = Inr tn
           \<and> okReads ''ESCROW'' (beforeWrite ''executeDeposit'' evs) = [VString esc, VString pe]
           \<and> toLowerCase pe = toLowerCase esc"
proof -
  have early: "?thesis" if "KWrite ''executeDeposit'' \<notin> kinds evs"
    using that ne by (simp add: writesOf_nokind)
  from run show ?thesis
  proof (cases rule: settle_cases)
    case notApplicable
    then show ?thesis by (intro early) simp
  next
    case (factory fa payouts e1 x)
    then show ?thesis
      by (intro early) (auto dest!: phase_kinds later_nil simp: trace_simps)
  next
    case (resolve fa payouts w1 e1 e2 x)
    then show ?thesis
      by (intro early) (auto dest!: phase_kinds later_nil simp: trace_simps)
  next
    case (registration fa payouts w1 e1 proxy m esc w2 e2 e3 x)
    then show ?thesis
      by (intro early) (auto dest!: phase_kinds later_nil simp: trace_simps)
  next
    case (noPayload fa payouts w1 e1 proxy m esc w2 e2 w3 e3 e4 x)
    then show ?thesis
      by (intro early) (auto dest!: phase_kinds later_nil simp: trace_simps)
  next
    case (binding fa payouts w1 e1 proxy m esc w2 e2 w3 e3 a sg w4 e4 e5 x)
    then show ?thesis
      by (intro early) (auto dest!: phase_kinds later_nil simp: trace_simps)
  next
    case (immutables fa payouts w1 e1 proxy m esc w2 e2 w3 e3 a sg w4 e4 w5 e5 e6 x)
    then show ?thesis
      by (intro early) (auto dest!: phase_kinds later_nil simp: trace_simps)
  next
    case (signature fa payouts w1 e1 proxy m esc w2 e2 w3 e3 a sg w4 e4 w5 e5 w6 e6 e7 x)
    then show ?thesis
      by (intro early) (auto dest!: phase_kinds later_nil simp: trace_simps)
  next
    case (nonce fa payouts w1 e1 proxy m esc w2 e2 w3 e3 a sg w4 e4 w5 e5 w6 e6 v r s w7 e7 e8 x)
    then show ?thesis
      by (intro early) (auto dest!: phase_kinds later_nil simp: trace_simps)
  next
    case (completed fa payouts w1 e1 proxy m esc w2 e2 w3 e3 a sg w4 e4 w5 e5 w6 e6 v r s w7 e7 w8 e8 e9)
    from executeDeposit_obs[OF completed(10)] show ?thesis by auto
  next
    case (deposit fa payouts w1 e1 proxy m esc w2 e2 w3 e3 a sg w4 e4 w5 e5 w6 e6 v r s w7 e7 w8 e8 e9 x)
    define pre where "pre = e1 @ e2 @ e3 @ e4 @ e5 @ e6 @ e7 @ e8"
    have pre: "KWrite ''executeDeposit'' \<notin> kinds pre"
      using deposit(2-9) unfolding pre_def
      by (auto dest!: phase_kinds later_nil simp: trace_simps)
    have evs: "evs = pre @ e9" using deposit(12) by (simp add: pre_def)
    have ne9: "writesOf ''executeDeposit'' e9 \<noteq> []"
      using ne pre evs by (simp add: writesOf_nokind)
    have b9: "beforeWrite ''executeDeposit'' e9 = []"
    proof (cases "depositCall l proxy a v r s")
      case (Inl e)
      then have "e9 = linearBackoffTrace 0 (replicate 6 [])"
        using executeDeposit_trace[OF deposit(10)] by simp
      then have "writesOf ''executeDeposit'' e9 = []"
        using kinds_idle[of 0 6] by (auto simp: trace_simps)
      then show ?thesis using ne9 by simp
    next
      case (Inr c)
      then obtain attempts where "e9 = linearBackoffTrace 0 attempts" "attempts \<noteq> []"
          "list_all isAttempt attempts"
        using executeDeposit_trace[OF deposit(10)] by auto
      then show ?thesis using beforeWrite_attempts[of attempts 0 "[]"] by simp
    qed
    have bw: "beforeWrite ''executeDeposit'' evs = pre"
      using pre b9 evs by (simp add: beforeWrite_nokind)
    have p: "getAddress l (payTo pr) = Inr proxy" "okReads ''ESCROW'' e2 = [VString esc]"
      using resolveRelay_ok[OF deposit(3)] by auto
    from verifyProxyImmutables_passed[OF deposit(7)] obtain t tn pe where
      i: "okReads ''TOKEN'' e6 = [VString t]" "getAddress l t = Inr tn"
         "getAddress l (asset pr) = Inr tn" "okReads ''ESCROW'' e6 = [VString pe]"
         "toLowerCase pe = toLowerCase esc" by blast
    have tok: "okReads ''TOKEN'' pre = [VString t]"
      using deposit(2-9) i(1) unfolding pre_def
      by (auto dest!: phase_kinds later_nil simp: trace_simps)
    have es: "okReads ''ESCROW'' pre = [VString esc, VString pe]"
      using deposit(2,4,5,6,8,9) p(2) i(4) unfolding pre_def
      by (auto dest!: later_kinds later_nil simp: trace_simps)
    show ?thesis using p(1) tok es i bw by auto
  qed
qed


lemma writeCalls_length: "length (writeCalls fn evs) = length (writesOf fn evs)"
  by (induction fn evs rule: writeCalls.induct) auto

lemma writeCalls_calls:
  "c \<in> set (writeCalls fn evs) \<Longrightarrow> c \<in> set (calls evs) \<and> functionName c = fn"
  by (induction fn evs rule: writeCalls.induct) (auto split: if_splits)

lemma singleton_list: "length xs = 1 \<Longrightarrow> \<forall>x\<in>set xs. x = y \<Longrightarrow> xs = [y]"
  by (cases xs) auto


section \<open>The retry policy of the read wrapper\<close>

lemma readContractLoop_trace:
  assumes "readContractLoop (readContractOp tag f) a maxRetries k lastError w = (res, w', evs)"
      and "0 \<le> k" and "k \<le> maxRetries"
  shows "evs = retryTrace a (nat k) (readResults evs)
       \<and> readResults evs \<noteq> []
       \<and> int (length (readResults evs)) \<le> maxRetries + 1 - k
       \<and> (\<forall>i. Suc i < length (readResults evs) \<longrightarrow>
              (\<exists>e. readResults evs ! i = Inl e \<and> isRateLimitError e))
       \<and> ((\<exists>e. res = Inl (Throw e) \<and> last (readResults evs) = Inl e)
           \<or> (\<exists>v. res = Inr v \<and> last (readResults evs) = Inr (tag v)))
       \<and> (\<forall>e. last (readResults evs) = Inl e \<and> isRateLimitError e \<longrightarrow>
              int (length (readResults evs)) = maxRetries + 1 - k)"
  using assms
proof (induction "readContractOp tag f" a maxRetries k lastError w arbitrary: res w' evs
       rule: readContractLoop.induct)
  case (1 a maxRetries attempt lastError w)
  obtain r w1 where f: "f a w = (r, w1)" by (cases "f a w")
  show ?case
  proof (cases r)
    case (Inr v)
    with 1(2-) f show ?thesis
      by (auto simp add: readContractOp_def readContractLoop.simps[of _ a])
  next
    case (Inl error)
    show ?thesis
    proof (cases "isRateLimitError error \<and> attempt < maxRetries")
      case False
      with 1(2-) f Inl show ?thesis
        by (auto simp add: readContractOp_def readContractLoop.simps[of _ a] split: if_splits)
    next
      case True
      obtain r2 w2 e2 where rec:
        "readContractLoop (readContractOp tag f) a maxRetries (attempt + 1) error w1 = (r2, w2, e2)"
        by (cases "readContractLoop (readContractOp tag f) a maxRetries (attempt + 1) error w1")
      have ro: "readContractOp tag f a w = (Inl error, w1, [ERead a (Inl error)])"
        using f Inl by (simp add: readContractOp_def)
      have IH: "e2 = retryTrace a (nat (attempt + 1)) (readResults e2)
       \<and> readResults e2 \<noteq> []
       \<and> int (length (readResults e2)) \<le> maxRetries + 1 - (attempt + 1)
       \<and> (\<forall>i. Suc i < length (readResults e2) \<longrightarrow>
              (\<exists>e. readResults e2 ! i = Inl e \<and> isRateLimitError e))
       \<and> ((\<exists>e. r2 = Inl (Throw e) \<and> last (readResults e2) = Inl e)
           \<or> (\<exists>v. r2 = Inr v \<and> last (readResults e2) = Inr (tag v)))
       \<and> (\<forall>e. last (readResults e2) = Inl e \<and> isRateLimitError e \<longrightarrow>
              int (length (readResults e2)) = maxRetries + 1 - (attempt + 1))"
        using 1(1)[OF _ ro[symmetric] _ _ _ _ rec] True 1(3,4) by simp
      have res: "res = r2" "w' = w2"
        "evs = ERead a (Inl error) # ESleep (min (1000 * 2 ^ nat attempt) 16000) # e2"
        using 1(2) True ro rec 1(4) by (simp_all add: readContractLoop.simps[of _ a _ attempt])
      obtain x xs where rs2: "readResults e2 = x # xs" using IH by (cases "readResults e2") auto
      have nat_suc: "nat (attempt + 1) = Suc (nat attempt)" using 1(3) by simp
      have tr: "evs = retryTrace a (nat attempt) (readResults evs)"
        using IH rs2 res nat_suc by simp
      have nth: "\<forall>i. Suc i < length (readResults evs) \<longrightarrow>
              (\<exists>e. readResults evs ! i = Inl e \<and> isRateLimitError e)"
      proof (intro allI impI)
        fix i assume "Suc i < length (readResults evs)"
        then show "\<exists>e. readResults evs ! i = Inl e \<and> isRateLimitError e"
          using IH True res by (cases i) auto
      qed
      show ?thesis using tr nth IH rs2 res by auto
    qed
  qed
qed

text \<open>
  Claim C3.  Let a run of \<open>readContractWithRetry\<close> with \<open>maxRetries \<ge> 0\<close> have the trace
  \<open>evs\<close>, and let \<open>readResults evs\<close> be the outcomes of its \<open>readContract\<close> calls in order.
  Then the trace is exactly those calls, all with the given arguments, with a wait of
  \<open>min (1000 * 2 ^ k) 16000\<close> ms between attempt \<open>k\<close> (counted from 0) and the next one;
  there is at least one call and there are at most \<open>maxRetries + 1\<close>; an attempt that
  fails with an error that is not rate limited is the last one and its error is the one
  thrown; every attempt before the last failed with a rate-limit error; the outcome of the
  last attempt is the outcome of the wrapper (its value is returned, its error is thrown);
  and a rate-limited failure ends the run only when it is attempt number \<open>maxRetries\<close>.
\<close>

theorem readContractWithRetry_policy:
  assumes "0 \<le> maxRetries"
      and "readContractWithRetry (readContractOp tag f) a maxRetries w = (res, w', evs)"
  shows "evs = retryTrace a 0 (readResults evs)
       \<and> readResults evs \<noteq> []
       \<and> int (length (readResults evs)) \<le> maxRetries + 1
       \<and> (\<forall>i e. i < length (readResults evs) \<and> readResults evs ! i = Inl e
                  \<and> \<not> isRateLimitError e
              \<longrightarrow> Suc i = length (readResults evs) \<and> res = Inl (Throw e))
       \<and> (\<forall>i. Suc i < length (readResults evs) \<longrightarrow>
              (\<exists>e. readResults evs ! i = Inl e \<and> isRateLimitError e))
       \<and> ((\<exists>e. res = Inl (Throw e) \<and> last (readResults evs) = Inl e)
           \<or> (\<exists>v. res = Inr v \<and> last (readResults evs) = Inr (tag v)))
       \<and> (\<forall>e. last (readResults evs) = Inl e \<and> isRateLimitError e \<longrightarrow>
              int (length (readResults evs)) = maxRetries + 1)"
proof -
  let ?rs = "readResults evs"
  have L: "evs = retryTrace a (nat 0) ?rs
       \<and> ?rs \<noteq> []
       \<and> int (length ?rs) \<le> maxRetries + 1 - 0
       \<and> (\<forall>i. Suc i < length ?rs \<longrightarrow> (\<exists>e. ?rs ! i = Inl e \<and> isRateLimitError e))
       \<and> ((\<exists>e. res = Inl (Throw e) \<and> last ?rs = Inl e)
           \<or> (\<exists>v. res = Inr v \<and> last ?rs = Inr (tag v)))
       \<and> (\<forall>e. last ?rs = Inl e \<and> isRateLimitError e \<longrightarrow> int (length ?rs) = maxRetries + 1 - 0)"
    using readContractLoop_trace[of tag f a maxRetries 0 JUndefined w res w' evs] assms
    by (simp add: readContractWithRetry_def)
  have imm: "\<forall>i e. i < length ?rs \<and> ?rs ! i = Inl e \<and> \<not> isRateLimitError e
              \<longrightarrow> Suc i = length ?rs \<and> res = Inl (Throw e)"
  proof (intro allI impI)
    fix i e
    assume h: "i < length ?rs \<and> ?rs ! i = Inl e \<and> \<not> isRateLimitError e"
    have notbefore: "\<not> Suc i < length ?rs"
    proof
      assume "Suc i < length ?rs"
      then obtain e' where "?rs ! i = Inl e'" "isRateLimitError e'" using L by blast
      then show False using h by simp
    qed
    then have last_i: "Suc i = length ?rs" using h by simp
    then have "last ?rs = ?rs ! i" using L by (metis diff_Suc_1 last_conv_nth)
    then have "last ?rs = Inl e" using h by simp
    then have "res = Inl (Throw e)" using L by auto
    then show "Suc i = length ?rs \<and> res = Inl (Throw e)" using last_i by simp
  qed
  have L': "evs = retryTrace a 0 ?rs" "?rs \<noteq> []" "int (length ?rs) \<le> maxRetries + 1"
    "\<forall>i. Suc i < length ?rs \<longrightarrow> (\<exists>e. ?rs ! i = Inl e \<and> isRateLimitError e)"
    "(\<exists>e. res = Inl (Throw e) \<and> last ?rs = Inl e) \<or> (\<exists>v. res = Inr v \<and> last ?rs = Inr (tag v))"
    "\<forall>e. last ?rs = Inl e \<and> isRateLimitError e \<longrightarrow> int (length ?rs) = maxRetries + 1"
    using L by simp_all
  show ?thesis
    apply (intro conjI)
    using L' imm by blast+
qed

theorem readContractWithRetry_policy_witness:
  "(0::int) \<le> 5
   \<and> readContractWithRetry (readContractOp VString flakyRead) someCall 5 0
       = (Inr ''0x01'', 3,
          [ERead someCall (Inl rateLimited429), ESleep 1000,
           ERead someCall (Inl rateLimited429), ESleep 2000,
           ERead someCall (Inr (VString ''0x01''))])
   \<and> int (length (readResults
        [ERead someCall (Inl rateLimited429), ESleep 1000,
         ERead someCall (Inl rateLimited429), ESleep 2000,
         ERead someCall (Inr (VString ''0x01''))])) \<le> 5 + 1"
proof -
  have h: "(0::int) \<le> 5" by simp
  have run: "readContractWithRetry (readContractOp VString flakyRead) someCall 5 0
       = (Inr ''0x01'', 3,
          [ERead someCall (Inl rateLimited429), ESleep 1000,
           ERead someCall (Inl rateLimited429), ESleep 2000,
           ERead someCall (Inr (VString ''0x01''))])"
    by code_simp
  have bound: "int (length (readResults
        [ERead someCall (Inl rateLimited429), ESleep 1000,
         ERead someCall (Inl rateLimited429), ESleep 2000,
         ERead someCall (Inr (VString ''0x01''))])) \<le> 5 + 1"
    using readContractWithRetry_policy[OF h run] by (elim conjE)
  show ?thesis
    using h run bound by (intro conjI)
qed

text \<open>
  Claim C1.  Take any run of \<open>settleWithRefundHelper\<close> whose trace shows the merchant
  registered (the read of \<open>registeredMerchants\<close> succeeded and returned true, which happens
  only after the factory was found and the relay resolved), on a payload that carries an
  authorization and a signature.  If \<open>getAddress\<close> of \<open>authorization.to\<close> differs from
  \<open>getAddress\<close> of \<open>paymentRequirements.payTo\<close>, the run throws the error that names both
  addresses; it returns neither \<open>null\<close> nor a response, and it writes nothing after the
  registration check.
\<close>

theorem authorization_binding_enforced:
  assumes run: "settleWithRefundHelper l pp pr signer w = (res, w', evs)"
      and reg: "okReads ''registeredMerchants'' evs = [VBool True]"
      and auth: "authorization (payload pp) = Some a"
      and sg: "signature (payload pp) = Some sg" "sg \<noteq> []"
      and authTo: "getAddress l (auth_to a) = Inr authTo"
      and proxy: "getAddress l (payTo pr) = Inr proxyAddress"
      and neq: "authTo \<noteq> proxyAddress"
  shows "res = Throw (newError (bindingMismatchMessage authTo proxyAddress))
       \<and> writesOf ''executeDeposit'' evs = []"
  using run
proof (cases rule: settle_cases)
  case notApplicable
  then show ?thesis using reg by simp
next
  case (factory fa payouts e1 x)
  then show ?thesis using reg by (auto dest!: phase_kinds simp: trace_simps)
next
  case (resolve fa payouts w1 e1 e2 x)
  then show ?thesis using reg by (auto dest!: phase_kinds simp: trace_simps)
next
  case (registration fa payouts w1 e1 proxy m esc w2 e2 e3 x)
  from checkMerchantRegistered_obs[OF registration(4)]
  have "okReads ''registeredMerchants'' e3 \<noteq> [VBool True]" by auto
  moreover have "okReads ''registeredMerchants'' evs = okReads ''registeredMerchants'' e3"
    using registration(2,3,6) by (auto dest!: phase_kinds simp: trace_simps)
  ultimately show ?thesis using reg by simp
next
  case (noPayload fa payouts w1 e1 proxy m esc w2 e2 w3 e3 e4 x)
  then show ?thesis using auth sg by (auto dest!: extractAuthorization_abort)
next
  case (binding fa payouts w1 e1 proxy m esc w2 e2 w3 e3 a' sg' w4 e4 e5 x)
  have a': "a' = a" using binding(5) auth by (auto dest!: extractAuthorization_ok)
  have p: "proxy = proxyAddress" using binding(3) proxy by (auto dest!: resolveRelay_ok)
  have x: "x = Throw (newError (bindingMismatchMessage authTo proxyAddress))" "e5 = []"
    using verifyAuthorizationBinding_obs[OF binding(6)] a' p authTo neq by auto
  have e4: "e4 = []" using binding(5) by (auto dest!: extractAuthorization_ok)
  have "writesOf ''executeDeposit'' evs = []"
    using binding(2,3,4,8) e4 x(2) by (auto dest!: phase_kinds simp: trace_simps)
  then show ?thesis using binding(7) x by simp
next
  case (immutables fa payouts w1 e1 proxy m esc w2 e2 w3 e3 a' sg' w4 e4 w5 e5 e6 x)
  have "a' = a" using immutables(5) auth by (auto dest!: extractAuthorization_ok)
  moreover have "proxy = proxyAddress" using immutables(3) proxy by (auto dest!: resolveRelay_ok)
  ultimately show ?thesis
    using verifyAuthorizationBinding_ok[OF immutables(6)] authTo neq by simp
next
  case (signature fa payouts w1 e1 proxy m esc w2 e2 w3 e3 a' sg' w4 e4 w5 e5 w6 e6 e7 x)
  have "a' = a" using signature(5) auth by (auto dest!: extractAuthorization_ok)
  moreover have "proxy = proxyAddress" using signature(3) proxy by (auto dest!: resolveRelay_ok)
  ultimately show ?thesis
    using verifyAuthorizationBinding_ok[OF signature(6)] authTo neq by simp
next
  case (nonce fa payouts w1 e1 proxy m esc w2 e2 w3 e3 a' sg' w4 e4 w5 e5 w6 e6 v r s w7 e7 e8 x)
  have "a' = a" using nonce(5) auth by (auto dest!: extractAuthorization_ok)
  moreover have "proxy = proxyAddress" using nonce(3) proxy by (auto dest!: resolveRelay_ok)
  ultimately show ?thesis
    using verifyAuthorizationBinding_ok[OF nonce(6)] authTo neq by simp
next
  case (deposit fa payouts w1 e1 proxy m esc w2 e2 w3 e3 a' sg' w4 e4 w5 e5 w6 e6 v r s w7 e7 w8 e8 e9 x)
  have "a' = a" using deposit(5) auth by (auto dest!: extractAuthorization_ok)
  moreover have "proxy = proxyAddress" using deposit(3) proxy by (auto dest!: resolveRelay_ok)
  ultimately show ?thesis
    using verifyAuthorizationBinding_ok[OF deposit(6)] authTo neq by simp
next
  case (completed fa payouts w1 e1 proxy m esc w2 e2 w3 e3 a' sg' w4 e4 w5 e5 w6 e6 v r s w7 e7 w8 e8 e9)
  have "a' = a" using completed(5) auth by (auto dest!: extractAuthorization_ok)
  moreover have "proxy = proxyAddress" using completed(3) proxy by (auto dest!: resolveRelay_ok)
  ultimately show ?thesis
    using verifyAuthorizationBinding_ok[OF completed(6)] authTo neq by simp
qed

theorem authorization_binding_enforced_witness:
  "okReads ''registeredMerchants''
     (snd (snd (settleWithRefundHelper exLib exMisdirected exRequirements
                  (stubSigner deployedStub) ()))) = [VBool True]
   \<and> authorization (payload exMisdirected) = Some (exAuthorization\<lparr>auth_to := exOther\<rparr>)
   \<and> signature (payload exMisdirected) = Some exSignature \<and> exSignature \<noteq> []
   \<and> getAddress exLib (auth_to (exAuthorization\<lparr>auth_to := exOther\<rparr>)) = Inr exOther
   \<and> getAddress exLib (payTo exRequirements) = Inr exProxy
   \<and> exOther \<noteq> exProxy
   \<and> fst (settleWithRefundHelper exLib exMisdirected exRequirements (stubSigner deployedStub) ())
       = Throw (newError (bindingMismatchMessage exOther exProxy))"
proof -
  let ?R = "settleWithRefundHelper exLib exMisdirected exRequirements (stubSigner deployedStub) ()"
  have run: "?R = (fst ?R, fst (snd ?R), snd (snd ?R))" by (simp only: prod.collapse)
  have reg: "okReads ''registeredMerchants'' (snd (snd ?R)) = [VBool True]" by code_simp
  have auth: "authorization (payload exMisdirected) = Some (exAuthorization\<lparr>auth_to := exOther\<rparr>)"
    by code_simp
  have sg: "signature (payload exMisdirected) = Some exSignature" "exSignature \<noteq> []"
    by code_simp+
  have authTo: "getAddress exLib (auth_to (exAuthorization\<lparr>auth_to := exOther\<rparr>)) = Inr exOther"
    by code_simp
  have proxy: "getAddress exLib (payTo exRequirements) = Inr exProxy" by code_simp
  have neq: "exOther \<noteq> exProxy" by code_simp
  have "fst ?R = Throw (newError (bindingMismatchMessage exOther exProxy))"
    using authorization_binding_enforced[OF run reg auth sg authTo proxy neq] by (elim conjE)
  then show ?thesis using reg auth sg authTo proxy neq by (intro conjI)
qed

section \<open>Proxy consistency\<close>

lemma sublist_tokenMismatch:
  "sublist tn (immutablesFailedMessage (tokenMismatchMessage tn an))"
  "sublist an (immutablesFailedMessage (tokenMismatchMessage tn an))"
  unfolding immutablesFailedMessage_def tokenMismatchMessage_def
   apply (rule sublist_appendR, rule sublist_appendR, rule sublist_appendR,
          rule sublist_append_rightI)
  apply (rule sublist_appendR, rule sublist_appendR, rule sublist_appendR, rule sublist_appendR,
         rule sublist_appendR, rule sublist_append_rightI)
  done

lemma sublist_escrowMismatch:
  "sublist pe (immutablesFailedMessage (escrowMismatchMessage pe esc))"
  "sublist esc (immutablesFailedMessage (escrowMismatchMessage pe esc))"
  unfolding immutablesFailedMessage_def escrowMismatchMessage_def
   apply (rule sublist_appendR, rule sublist_appendR, rule sublist_append_rightI)
  apply (rule sublist_appendR, rule sublist_appendR, rule sublist_appendR, rule sublist_appendR,
         rule sublist_append_rightI)
  done

lemma getAddress_toLowerCase:
  assumes "getAddress l a = Inr a'" and "getAddress l b = Inr b'"
      and "toLowerCase a = toLowerCase b"
  shows "a' = b'"
proof -
  have "toLowerCase (drop 2 a) = toLowerCase (drop 2 b)"
    using assms(3) by (metis drop_map toLowerCase_def)
  then show ?thesis
    using assms(1,2) by (auto simp: getAddress_def checksumAddress_def split: if_splits)
qed

lemma verifyProxyImmutables_ok:
  assumes "verifyProxyImmutables l signer proxy pr esc w = (Inr (), w', evs)"
  shows "(\<forall>t tn an. VString t \<in> set (okReads ''TOKEN'' evs) \<and> getAddress l t = Inr tn
                     \<and> getAddress l (asset pr) = Inr an \<longrightarrow> tn = an)
       \<and> (\<forall>pe. okReads ''ESCROW'' evs = [VString pe] \<longrightarrow> toLowerCase pe = toLowerCase esc)
       \<and> length (okReads ''ESCROW'' evs) \<le> 1"
  using verifyProxyImmutables_obs[OF assms] by auto

lemma consistency_by_name:
  assumes run: "settleWithRefundHelper l pp pr signer w = (res, w', evs)"
  shows "(\<forall>t tn an. VString t \<in> set (okReads ''TOKEN'' evs) \<and> getAddress l t = Inr tn
                     \<and> getAddress l (asset pr) = Inr an \<and> tn \<noteq> an \<longrightarrow>
            (\<exists>msg. res = Throw (newError msg) \<and> sublist tn msg \<and> sublist an msg)
            \<and> writesOf ''executeDeposit'' evs = [])
       \<and> (\<forall>e1 e2. okReads ''ESCROW'' evs = [VString e1, VString e2]
                   \<and> toLowerCase e2 \<noteq> toLowerCase e1 \<longrightarrow>
            (\<exists>msg. res = Throw (newError msg) \<and> sublist e2 msg \<and> sublist e1 msg)
            \<and> writesOf ''executeDeposit'' evs = [])
       \<and> (\<forall>e1 e2 n1 n2. getAddress l e1 = Inr n1 \<and> getAddress l e2 = Inr n2 \<and> n1 \<noteq> n2 \<longrightarrow>
            toLowerCase e2 \<noteq> toLowerCase e1)"
proof -
  have third: "\<forall>e1 e2 n1 n2. getAddress l e1 = Inr n1 \<and> getAddress l e2 = Inr n2 \<and> n1 \<noteq> n2 \<longrightarrow>
            toLowerCase e2 \<noteq> toLowerCase e1"
    using getAddress_toLowerCase by metis
  have main: "(\<forall>t tn an. VString t \<in> set (okReads ''TOKEN'' evs) \<and> getAddress l t = Inr tn
                     \<and> getAddress l (asset pr) = Inr an \<and> tn \<noteq> an \<longrightarrow>
            (\<exists>msg. res = Throw (newError msg) \<and> sublist tn msg \<and> sublist an msg)
            \<and> writesOf ''executeDeposit'' evs = [])
       \<and> (\<forall>e1 e2. okReads ''ESCROW'' evs = [VString e1, VString e2]
                   \<and> toLowerCase e2 \<noteq> toLowerCase e1 \<longrightarrow>
            (\<exists>msg. res = Throw (newError msg) \<and> sublist e2 msg \<and> sublist e1 msg)
            \<and> writesOf ''executeDeposit'' evs = [])"
    using run
  proof (cases rule: settle_cases)
    case notApplicable
    then show ?thesis by simp
  next
    case (factory fa payouts e1 x)
    then show ?thesis by (auto dest!: phase_kinds simp: trace_simps)
  next
    case (resolve fa payouts w1 e1 e2 x)
    from resolveRelay_obs[OF resolve(3)] have "length (okReads ''ESCROW'' e2) \<le> 1" by auto
    moreover have "okReads ''TOKEN'' evs = []" "okReads ''ESCROW'' evs = okReads ''ESCROW'' e2"
      using resolve by (auto dest!: phase_kinds simp: trace_simps)
    ultimately show ?thesis by auto
  next
    case (registration fa payouts w1 e1 proxy m esc w2 e2 e3 x)
    have "okReads ''TOKEN'' evs = []" "okReads ''ESCROW'' evs = [VString esc]"
      using registration by (auto dest!: resolveRelay_ok later_kinds simp: trace_simps)
    then show ?thesis by auto
  next
    case (noPayload fa payouts w1 e1 proxy m esc w2 e2 w3 e3 e4 x)
    have "okReads ''TOKEN'' evs = []" "okReads ''ESCROW'' evs = [VString esc]"
      using noPayload
      by (auto dest!: resolveRelay_ok later_kinds extractAuthorization_abort simp: trace_simps)
    then show ?thesis by auto
  next
    case (binding fa payouts w1 e1 proxy m esc w2 e2 w3 e3 a sg w4 e4 e5 x)
    have "okReads ''TOKEN'' evs = []" "okReads ''ESCROW'' evs = [VString esc]"
      using binding
      by (auto dest!: resolveRelay_ok later_kinds extractAuthorization_ok
                      verifyAuthorizationBinding_obs simp: trace_simps)
    then show ?thesis by auto
  next
    case (immutables fa payouts w1 e1 proxy m esc w2 e2 w3 e3 a sg w4 e4 w5 e5 e6 x)
    have pre: "okReads ''TOKEN'' evs = okReads ''TOKEN'' e6"
      "okReads ''ESCROW'' evs = VString esc # okReads ''ESCROW'' e6"
      "writesOf ''executeDeposit'' evs = []"
      using immutables
      by (auto dest!: resolveRelay_ok later_kinds extractAuthorization_ok
                      verifyAuthorizationBinding_ok simp: trace_simps)
    show ?thesis
      using verifyProxyImmutables_obs[OF immutables(7)] pre immutables(8)
            sublist_tokenMismatch sublist_escrowMismatch
      by auto
  next
    case (signature fa payouts w1 e1 proxy m esc w2 e2 w3 e3 a sg w4 e4 w5 e5 w6 e6 e7 x)
    have pre: "okReads ''TOKEN'' evs = okReads ''TOKEN'' e6"
      "okReads ''ESCROW'' evs = VString esc # okReads ''ESCROW'' e6"
      using signature
      by (auto dest!: resolveRelay_ok later_kinds extractAuthorization_ok decodeSignature_nil
                      verifyAuthorizationBinding_ok simp: trace_simps)
    show ?thesis using verifyProxyImmutables_ok[OF signature(7)] pre by auto
  next
    case (nonce fa payouts w1 e1 proxy m esc w2 e2 w3 e3 a sg w4 e4 w5 e5 w6 e6 v r s w7 e7 e8 x)
    have pre: "okReads ''TOKEN'' evs = okReads ''TOKEN'' e6"
      "okReads ''ESCROW'' evs = VString esc # okReads ''ESCROW'' e6"
      using nonce
      by (auto dest!: resolveRelay_ok later_kinds extractAuthorization_ok decodeSignature_nil
                      verifyAuthorizationBinding_ok simp: trace_simps)
    show ?thesis using verifyProxyImmutables_ok[OF nonce(7)] pre by auto
  next
    case (deposit fa payouts w1 e1 proxy m esc w2 e2 w3 e3 a sg w4 e4 w5 e5 w6 e6 v r s w7 e7 w8 e8 e9 x)
    have pre: "okReads ''TOKEN'' evs = okReads ''TOKEN'' e6"
      "okReads ''ESCROW'' evs = VString esc # okReads ''ESCROW'' e6"
      using deposit
      by (auto dest!: resolveRelay_ok later_kinds extractAuthorization_ok decodeSignature_nil
                      verifyAuthorizationBinding_ok simp: trace_simps)
    show ?thesis using verifyProxyImmutables_ok[OF deposit(7)] pre by auto
  next
    case (completed fa payouts w1 e1 proxy m esc w2 e2 w3 e3 a sg w4 e4 w5 e5 w6 e6 v r s w7 e7 w8 e8 e9)
    have pre: "okReads ''TOKEN'' evs = okReads ''TOKEN'' e6"
      "okReads ''ESCROW'' evs = VString esc # okReads ''ESCROW'' e6"
      using completed
      by (auto dest!: resolveRelay_ok later_kinds extractAuthorization_ok decodeSignature_nil
                      verifyAuthorizationBinding_ok simp: trace_simps)
    show ?thesis using verifyProxyImmutables_ok[OF completed(7)] pre by auto
  qed
  show ?thesis using main third by blast
qed


text \<open>
  Claim C6.  In every run of \<open>settleWithRefundHelper\<close>:
  if the trace has a successful read of \<open>TOKEN\<close> whose value, after \<open>getAddress\<close>, differs
  from \<open>getAddress\<close> of \<open>paymentRequirements.asset\<close>, the run throws an error whose
  message contains both normalized addresses, and the trace has no \<open>executeDeposit\<close>
  write; if the trace has two successful reads of \<open>ESCROW\<close> (the one that resolved the
  escrow and the proxy's declaration read at the consistency check) whose values differ as
  addresses, that is in their lower-case spelling, the run throws an error whose message
  contains both values, and again there is no \<open>executeDeposit\<close> write.  Two addresses that
  differ after \<open>getAddress\<close> differ in their lower-case spelling.

  No deposit goes without the check: when the trace has an \<open>executeDeposit\<close> write, the
  part of the trace before the first one holds exactly one successful read of \<open>TOKEN\<close> at
  the proxy address, whose value is the asset of the payment after \<open>getAddress\<close>, and
  exactly two successful reads of \<open>ESCROW\<close> at the proxy address, the escrow resolved
  earlier and the proxy's declaration, equal in lower case.  And every read of \<open>TOKEN\<close>
  or \<open>ESCROW\<close> of the run is a read at the proxy address, without arguments.
\<close>

theorem proxy_consistency_enforced:
  assumes run: "settleWithRefundHelper l pp pr signer w = (res, w', evs)"
  shows "(\<forall>t tn an. VString t \<in> set (okReads ''TOKEN'' evs) \<and> getAddress l t = Inr tn
                     \<and> getAddress l (asset pr) = Inr an \<and> tn \<noteq> an \<longrightarrow>
            (\<exists>msg. res = Throw (newError msg) \<and> sublist tn msg \<and> sublist an msg)
            \<and> writesOf ''executeDeposit'' evs = [])
       \<and> (\<forall>e1 e2. okReads ''ESCROW'' evs = [VString e1, VString e2]
                   \<and> toLowerCase e2 \<noteq> toLowerCase e1 \<longrightarrow>
            (\<exists>msg. res = Throw (newError msg) \<and> sublist e2 msg \<and> sublist e1 msg)
            \<and> writesOf ''executeDeposit'' evs = [])
       \<and> (\<forall>e1 e2 n1 n2. getAddress l e1 = Inr n1 \<and> getAddress l e2 = Inr n2 \<and> n1 \<noteq> n2 \<longrightarrow>
            toLowerCase e2 \<noteq> toLowerCase e1)
       \<and> (writesOf ''executeDeposit'' evs \<noteq> [] \<longrightarrow>
            (\<exists>proxy t tn esc pe. getAddress l (payTo pr) = Inr proxy
               \<and> okReadsOf (proxyCall proxy ''TOKEN'') (beforeWrite ''executeDeposit'' evs)
                   = [VString t]
               \<and> getAddress l t = Inr tn \<and> getAddress l (asset pr) = Inr tn
               \<and> okReadsOf (proxyCall proxy ''ESCROW'') (beforeWrite ''executeDeposit'' evs)
                   = [VString esc, VString pe]
               \<and> toLowerCase pe = toLowerCase esc))
       \<and> (\<forall>proxy c. getAddress l (payTo pr) = Inr proxy \<and> c \<in> set (calls evs) \<longrightarrow>
            (functionName c = ''TOKEN'' \<longrightarrow> c = proxyCall proxy ''TOKEN'')
            \<and> (functionName c = ''ESCROW'' \<longrightarrow> c = proxyCall proxy ''ESCROW''))"
proof -
  note N = consistency_by_name[OF run]
  have at: "(functionName c = ''TOKEN'' \<longrightarrow> c = proxyCall proxy ''TOKEN'')
            \<and> (functionName c = ''ESCROW'' \<longrightarrow> c = proxyCall proxy ''ESCROW'')"
    if "getAddress l (payTo pr) = Inr proxy" "c \<in> set (calls evs)" for proxy c
    using settle_calls[OF run that] by blast
  have prec: "\<exists>proxy t tn esc pe. getAddress l (payTo pr) = Inr proxy
               \<and> okReadsOf (proxyCall proxy ''TOKEN'') (beforeWrite ''executeDeposit'' evs)
                   = [VString t]
               \<and> getAddress l t = Inr tn \<and> getAddress l (asset pr) = Inr tn
               \<and> okReadsOf (proxyCall proxy ''ESCROW'') (beforeWrite ''executeDeposit'' evs)
                   = [VString esc, VString pe]
               \<and> toLowerCase pe = toLowerCase esc"
    if ne: "writesOf ''executeDeposit'' evs \<noteq> []"
  proof -
    from deposit_preceded[OF run ne] obtain proxy t tn esc pe where
      d: "getAddress l (payTo pr) = Inr proxy"
         "okReads ''TOKEN'' (beforeWrite ''executeDeposit'' evs) = [VString t]"
         "getAddress l t = Inr tn" "getAddress l (asset pr) = Inr tn"
         "okReads ''ESCROW'' (beforeWrite ''executeDeposit'' evs) = [VString esc, VString pe]"
         "toLowerCase pe = toLowerCase esc"
      by blast
    have sub: "c \<in> set (calls evs)" if "c \<in> set (calls (beforeWrite ''executeDeposit'' evs))" for c
      using that calls_beforeWrite by blast
    have "okReadsOf (proxyCall proxy ''TOKEN'') (beforeWrite ''executeDeposit'' evs)
            = okReads (functionName (proxyCall proxy ''TOKEN'')) (beforeWrite ''executeDeposit'' evs)"
      by (rule okReadsOf_okReads) (use at[OF d(1) sub] in \<open>auto simp: proxyCall_def\<close>)
    then have T: "okReadsOf (proxyCall proxy ''TOKEN'') (beforeWrite ''executeDeposit'' evs)
                    = [VString t]"
      using d(2) by (simp add: proxyCall_def)
    have "okReadsOf (proxyCall proxy ''ESCROW'') (beforeWrite ''executeDeposit'' evs)
            = okReads (functionName (proxyCall proxy ''ESCROW'')) (beforeWrite ''executeDeposit'' evs)"
      by (rule okReadsOf_okReads) (use at[OF d(1) sub] in \<open>auto simp: proxyCall_def\<close>)
    then have E: "okReadsOf (proxyCall proxy ''ESCROW'') (beforeWrite ''executeDeposit'' evs)
                    = [VString esc, VString pe]"
      using d(5) by (simp add: proxyCall_def)
    show ?thesis using d(1,3,4,6) T E by blast
  qed
  show ?thesis
    apply (intro conjI)
    subgoal using N by blast
    subgoal using N by blast
    subgoal using N by blast
    subgoal using prec by blast
    subgoal using at by blast
    done
qed


theorem proxy_consistency_enforced_witness:
  "VString exOther \<in> set (okReads ''TOKEN''
      (snd (snd (settleWithRefundHelper exLib exPayload exRequirements
                   (stubSigner wrongTokenStub) ()))))
   \<and> getAddress exLib exOther = Inr exOther
   \<and> getAddress exLib (asset exRequirements) = Inr exToken
   \<and> exOther \<noteq> exToken
   \<and> (\<exists>msg. fst (settleWithRefundHelper exLib exPayload exRequirements
                    (stubSigner wrongTokenStub) ()) = Throw (newError msg)
            \<and> sublist exOther msg \<and> sublist exToken msg)
   \<and> writesOf ''executeDeposit''
        (snd (snd (settleWithRefundHelper exLib exPayload exRequirements
                     (stubSigner wrongTokenStub) ()))) = []
   \<and> okReads ''ESCROW''
        (snd (snd (settleWithRefundHelper exLib exPayload exRequirements driftingSigner False)))
       = [VString exEscrow, VString exOther]
   \<and> toLowerCase exOther \<noteq> toLowerCase exEscrow
   \<and> (\<exists>msg. fst (settleWithRefundHelper exLib exPayload exRequirements driftingSigner False)
              = Throw (newError msg)
            \<and> sublist exOther msg \<and> sublist exEscrow msg)
   \<and> writesOf ''executeDeposit''
        (snd (snd (settleWithRefundHelper exLib exPayload exRequirements driftingSigner False)))
       = []
   \<and> writesOf ''executeDeposit''
        (snd (snd (settleWithRefundHelper exLib exPayload exRequirements
                     (relayChain exProxy) True))) \<noteq> []
   \<and> (\<exists>t tn esc pe.
          okReadsOf (proxyCall exProxy ''TOKEN'')
            (beforeWrite ''executeDeposit''
               (snd (snd (settleWithRefundHelper exLib exPayload exRequirements
                            (relayChain exProxy) True)))) = [VString t]
        \<and> getAddress exLib t = Inr tn \<and> getAddress exLib (asset exRequirements) = Inr tn
        \<and> okReadsOf (proxyCall exProxy ''ESCROW'')
            (beforeWrite ''executeDeposit''
               (snd (snd (settleWithRefundHelper exLib exPayload exRequirements
                            (relayChain exProxy) True)))) = [VString esc, VString pe]
        \<and> toLowerCase pe = toLowerCase esc)"
proof -
  let ?A = "settleWithRefundHelper exLib exPayload exRequirements (stubSigner wrongTokenStub) ()"
  let ?B = "settleWithRefundHelper exLib exPayload exRequirements driftingSigner False"
  have runA: "?A = (fst ?A, fst (snd ?A), snd (snd ?A))" by (simp only: prod.collapse)
  have runB: "?B = (fst ?B, fst (snd ?B), snd (snd ?B))" by (simp only: prod.collapse)
  have a1: "VString exOther \<in> set (okReads ''TOKEN'' (snd (snd ?A)))" by code_simp
  have a2: "getAddress exLib exOther = Inr exOther" by code_simp
  have a3: "getAddress exLib (asset exRequirements) = Inr exToken" by code_simp
  have a4: "exOther \<noteq> exToken" by code_simp
  have b1: "okReads ''ESCROW'' (snd (snd ?B)) = [VString exEscrow, VString exOther]" by code_simp
  have b2: "toLowerCase exOther \<noteq> toLowerCase exEscrow" by code_simp
  have A: "(\<exists>msg. fst ?A = Throw (newError msg) \<and> sublist exOther msg \<and> sublist exToken msg)
           \<and> writesOf ''executeDeposit'' (snd (snd ?A)) = []"
    using proxy_consistency_enforced[OF runA] a1 a2 a3 a4 by blast
  have B: "(\<exists>msg. fst ?B = Throw (newError msg) \<and> sublist exOther msg \<and> sublist exEscrow msg)
           \<and> writesOf ''executeDeposit'' (snd (snd ?B)) = []"
    using proxy_consistency_enforced[OF runB] b1 b2 by blast
  let ?K = "settleWithRefundHelper exLib exPayload exRequirements (relayChain exProxy) True"
  have runK: "?K = (fst ?K, fst (snd ?K), snd (snd ?K))" by (simp only: prod.collapse)
  have k1: "writesOf ''executeDeposit'' (snd (snd ?K)) \<noteq> []" by code_simp
  have k2: "getAddress exLib (payTo exRequirements) = Inr exProxy" by code_simp
  from proxy_consistency_enforced[OF runK] k1
  obtain proxy t tn esc pe where
    K: "getAddress exLib (payTo exRequirements) = Inr proxy"
       "okReadsOf (proxyCall proxy ''TOKEN'') (beforeWrite ''executeDeposit'' (snd (snd ?K)))
          = [VString t]"
       "getAddress exLib t = Inr tn" "getAddress exLib (asset exRequirements) = Inr tn"
       "okReadsOf (proxyCall proxy ''ESCROW'') (beforeWrite ''executeDeposit'' (snd (snd ?K)))
          = [VString esc, VString pe]"
       "toLowerCase pe = toLowerCase esc"
    by blast
  have px: "proxy = exProxy" using K(1) k2 by simp
  have K': "\<exists>t tn esc pe.
          okReadsOf (proxyCall exProxy ''TOKEN'') (beforeWrite ''executeDeposit'' (snd (snd ?K)))
            = [VString t]
        \<and> getAddress exLib t = Inr tn \<and> getAddress exLib (asset exRequirements) = Inr tn
        \<and> okReadsOf (proxyCall exProxy ''ESCROW'') (beforeWrite ''executeDeposit'' (snd (snd ?K)))
            = [VString esc, VString pe]
        \<and> toLowerCase pe = toLowerCase esc"
    using K(2-6) unfolding px by blast
  have A1: "\<exists>msg. fst ?A = Throw (newError msg) \<and> sublist exOther msg \<and> sublist exToken msg"
    and A2: "writesOf ''executeDeposit'' (snd (snd ?A)) = []" using A by blast+
  have B1: "\<exists>msg. fst ?B = Throw (newError msg) \<and> sublist exOther msg \<and> sublist exEscrow msg"
    and B2: "writesOf ''executeDeposit'' (snd (snd ?B)) = []" using B by blast+
  show ?thesis
    by (intro conjI) (rule a1 a2 a3 a4 A1 A2 b1 b2 B1 B2 k1 K')+
qed

section \<open>Deployment on demand\<close>

lemma deploy_by_name:
  assumes run: "settleWithRefundHelper l pp pr signer w = (res, w', evs)"
      and proxy: "getAddress l (payTo pr) = Inr proxyAddress"
  shows "length (writesOf ''deployRelay'' evs) \<le> 1
       \<and> (writesOf ''deployRelay'' evs \<noteq> [] \<longrightarrow>
            (\<exists>v. okReads ''getRelayAddress'' (beforeWrite ''deployRelay'' evs) = [VString v]
                 \<and> toLowerCase v = toLowerCase proxyAddress))
       \<and> (\<forall>v rest. okReads ''getRelayAddress'' evs = VString v # rest
                    \<and> toLowerCase v \<noteq> toLowerCase proxyAddress \<longrightarrow>
            (\<exists>msg. res = Throw (newError msg)
                  \<and> sublist (addressMismatchMessage v proxyAddress) msg)
            \<and> (\<forall>fn. writesOf fn evs = []))"
  using run
proof (cases rule: settle_cases_resolved)
  case notApplicable
  then show ?thesis by simp
next
  case (factory fa payouts e1 x)
  then show ?thesis by (auto dest!: phase_kinds simp: trace_simps)
next
  case (resolve fa payouts w1 e1 e2 x)
  have e1: "writesOf ''deployRelay'' e1 = []" "okReads ''getRelayAddress'' e1 = []"
    "\<forall>fn. writesOf fn e1 = []"
    using resolve(2) by (auto dest!: phase_kinds simp: trace_simps)
  show ?thesis
    using resolveRelay_obs[OF resolve(3)] proxy e1 resolve(4,5)
    by (auto simp: beforeWrite_append)
next
  case (resolved fa payouts w1 e1 proxy' m esc w2 e2 rest)
  have e1: "writesOf ''deployRelay'' e1 = []" "okReads ''getRelayAddress'' e1 = []"
    using resolved(2) by (auto dest!: phase_kinds simp: trace_simps)
  have rest: "writesOf ''deployRelay'' rest = []" "okReads ''getRelayAddress'' rest = []"
    using resolved(5) by (auto simp: trace_simps)
  show ?thesis
    using resolveRelay_obs[OF resolved(3)] proxy e1 rest resolved(4)
    by (auto simp: beforeWrite_append)
qed

text \<open>
  Claim C5.  In every run of \<open>settleWithRefundHelper\<close> with a well-formed \<open>payTo\<close>, whose
  checksum spelling is the proxy address:
  there is at most one \<open>deployRelay\<close> write; when there is one, it is the call
  \<open>deployRelay(merchantPayout)\<close> at the factory of the extension, for the merchant payout
  that the extension's map gives for the proxy address, and the part of the trace before
  it holds exactly one successful read of \<open>getRelayAddress\<close>, which is the read of
  \<open>getRelayAddress(merchantPayout)\<close> at that factory, and the address it returned equals
  the proxy address in lower case;
  and when the first successful read of \<open>getRelayAddress\<close> returns an address that differs
  from the proxy address in lower case, the run throws an error whose message contains the
  address-mismatch message with both addresses, and the trace has no write at all.
\<close>

theorem deploy_only_after_address_check:
  assumes run: "settleWithRefundHelper l pp pr signer w = (res, w', evs)"
      and proxy: "getAddress l (payTo pr) = Inr proxyAddress"
  shows "length (writesOf ''deployRelay'' evs) \<le> 1
       \<and> (writesOf ''deployRelay'' evs \<noteq> [] \<longrightarrow>
            (\<exists>fa payouts m f mp v.
                 extractRefundInfo l pp pr = Some (fa, payouts)
               \<and> lookupMerchantPayout payouts proxyAddress = Some m
               \<and> getAddress l fa = Inr f \<and> getAddress l m = Inr mp
               \<and> writeCalls ''deployRelay'' evs
                   = [\<lparr>address = f, functionName = ''deployRelay'', args = [AString mp]\<rparr>]
               \<and> okReads ''getRelayAddress'' (beforeWrite ''deployRelay'' evs) = [VString v]
               \<and> okReadsOf (relayAddressCall f mp) (beforeWrite ''deployRelay'' evs) = [VString v]
               \<and> toLowerCase v = toLowerCase proxyAddress))
       \<and> (\<forall>v rest. okReads ''getRelayAddress'' evs = VString v # rest
                    \<and> toLowerCase v \<noteq> toLowerCase proxyAddress \<longrightarrow>
            (\<exists>msg. res = Throw (newError msg)
                  \<and> sublist (addressMismatchMessage v proxyAddress) msg)
            \<and> (\<forall>fn. writesOf fn evs = []))"
proof -
  note N = deploy_by_name[OF run proxy]
  have mid: "\<exists>fa payouts m f mp v.
                 extractRefundInfo l pp pr = Some (fa, payouts)
               \<and> lookupMerchantPayout payouts proxyAddress = Some m
               \<and> getAddress l fa = Inr f \<and> getAddress l m = Inr mp
               \<and> writeCalls ''deployRelay'' evs
                   = [\<lparr>address = f, functionName = ''deployRelay'', args = [AString mp]\<rparr>]
               \<and> okReads ''getRelayAddress'' (beforeWrite ''deployRelay'' evs) = [VString v]
               \<and> okReadsOf (relayAddressCall f mp) (beforeWrite ''deployRelay'' evs) = [VString v]
               \<and> toLowerCase v = toLowerCase proxyAddress"
    if ne: "writesOf ''deployRelay'' evs \<noteq> []"
  proof -
    from N ne obtain v where
      v: "okReads ''getRelayAddress'' (beforeWrite ''deployRelay'' evs) = [VString v]"
         "toLowerCase v = toLowerCase proxyAddress" by blast
    have len: "length (writeCalls ''deployRelay'' evs) = 1"
      using N ne by (cases "writesOf ''deployRelay'' evs") (auto simp: writeCalls_length)
    then obtain c where c: "c \<in> set (writeCalls ''deployRelay'' evs)"
      by (cases "writeCalls ''deployRelay'' evs") auto
    from writeCalls_calls[OF c] have cc: "c \<in> set (calls evs)" "functionName c = ''deployRelay''"
      by auto
    from settle_calls[OF run proxy cc(1)] cc(2) obtain fa payouts m f mp where
      i: "extractRefundInfo l pp pr = Some (fa, payouts)"
         "lookupMerchantPayout payouts proxyAddress = Some m"
         "getAddress l fa = Inr f" "getAddress l m = Inr mp"
      by auto
    have id: "c' = \<lparr>address = f, functionName = functionName c', args = [AString mp]\<rparr>"
      if "c' \<in> set (calls evs)"
         "functionName c' = ''getRelayAddress'' \<or> functionName c' = ''deployRelay''" for c'
      using settle_calls[OF run proxy that(1)] that(2) i by auto
    have w: "writeCalls ''deployRelay'' evs
               = [\<lparr>address = f, functionName = ''deployRelay'', args = [AString mp]\<rparr>]"
    proof (rule singleton_list[OF len], rule ballI)
      fix c' assume "c' \<in> set (writeCalls ''deployRelay'' evs)"
      from writeCalls_calls[OF this] id[of c']
      show "c' = \<lparr>address = f, functionName = ''deployRelay'', args = [AString mp]\<rparr>" by auto
    qed
    have "\<forall>c'\<in>set (calls (beforeWrite ''deployRelay'' evs)).
            functionName c' = functionName (relayAddressCall f mp) \<longrightarrow> c' = relayAddressCall f mp"
    proof (intro ballI impI)
      fix c' assume a: "c' \<in> set (calls (beforeWrite ''deployRelay'' evs))"
        "functionName c' = functionName (relayAddressCall f mp)"
      then have "c' \<in> set (calls evs)" using calls_beforeWrite by blast
      from id[OF this] a(2) show "c' = relayAddressCall f mp"
        by (simp add: relayAddressCall_def)
    qed
    from okReadsOf_okReads[OF this]
    have "okReadsOf (relayAddressCall f mp) (beforeWrite ''deployRelay'' evs) = [VString v]"
      using v(1) by (simp add: relayAddressCall_def)
    then show ?thesis using i w v by blast
  qed
  show ?thesis using N mid by blast
qed


theorem deploy_only_after_address_check_witness:
  "getAddress exLib (payTo exRequirements) = Inr exProxy
   \<and> writesOf ''deployRelay''
        (snd (snd (settleWithRefundHelper exLib exPayload exRequirements
                     (relayChain exProxy) False))) \<noteq> []
   \<and> writeCalls ''deployRelay''
        (snd (snd (settleWithRefundHelper exLib exPayload exRequirements
                     (relayChain exProxy) False)))
       = [\<lparr>address = exFactory, functionName = ''deployRelay'', args = [AString exMerchant]\<rparr>]
   \<and> (\<exists>v. okReadsOf (relayAddressCall exFactory exMerchant)
             (beforeWrite ''deployRelay''
                (snd (snd (settleWithRefundHelper exLib exPayload exRequirements
                             (relayChain exProxy) False)))) = [VString v]
          \<and> toLowerCase v = toLowerCase exProxy)
   \<and> okReads ''getRelayAddress''
        (snd (snd (settleWithRefundHelper exLib exPayload exRequirements
                     (relayChain exOther) False))) = VString exOther # []
   \<and> toLowerCase exOther \<noteq> toLowerCase exProxy
   \<and> (\<exists>msg. fst (settleWithRefundHelper exLib exPayload exRequirements
                    (relayChain exOther) False) = Throw (newError msg)
            \<and> sublist (addressMismatchMessage exOther exProxy) msg)
   \<and> writesOf ''deployRelay''
        (snd (snd (settleWithRefundHelper exLib exPayload exRequirements
                     (relayChain exOther) False))) = []"
proof -
  let ?D = "settleWithRefundHelper exLib exPayload exRequirements (relayChain exProxy) False"
  let ?M = "settleWithRefundHelper exLib exPayload exRequirements (relayChain exOther) False"
  have runD: "?D = (fst ?D, fst (snd ?D), snd (snd ?D))" by (simp only: prod.collapse)
  have runM: "?M = (fst ?M, fst (snd ?M), snd (snd ?M))" by (simp only: prod.collapse)
  have p: "getAddress exLib (payTo exRequirements) = Inr exProxy" by code_simp
  have d1: "writesOf ''deployRelay'' (snd (snd ?D)) \<noteq> []" by code_simp
  have i: "map_option fst (extractRefundInfo exLib exPayload exRequirements) = Some exFactory"
    "lookupMerchantPayout (snd (the (extractRefundInfo exLib exPayload exRequirements))) exProxy
       = Some exMerchant"
    "getAddress exLib exFactory = Inr exFactory" "getAddress exLib exMerchant = Inr exMerchant"
    by code_simp+
  have m1: "okReads ''getRelayAddress'' (snd (snd ?M)) = VString exOther # []" by code_simp
  have m2: "toLowerCase exOther \<noteq> toLowerCase exProxy" by code_simp
  from deploy_only_after_address_check[OF runD p] d1
  obtain fa payouts m f mp v where
    D: "extractRefundInfo exLib exPayload exRequirements = Some (fa, payouts)"
       "lookupMerchantPayout payouts exProxy = Some m"
       "getAddress exLib fa = Inr f" "getAddress exLib m = Inr mp"
       "writeCalls ''deployRelay'' (snd (snd ?D))
          = [\<lparr>address = f, functionName = ''deployRelay'', args = [AString mp]\<rparr>]"
       "okReadsOf (relayAddressCall f mp) (beforeWrite ''deployRelay'' (snd (snd ?D))) = [VString v]"
       "toLowerCase v = toLowerCase exProxy"
    by blast
  have fa: "fa = exFactory" using D(1) i(1) by simp
  have m: "m = exMerchant" using D(1,2) i(2) by simp
  have f: "f = exFactory" using D(3) i(3) fa by simp
  have mp: "mp = exMerchant" using D(4) i(4) m by simp
  have D1: "writeCalls ''deployRelay'' (snd (snd ?D))
       = [\<lparr>address = exFactory, functionName = ''deployRelay'', args = [AString exMerchant]\<rparr>]"
    using D(5) unfolding f mp .
  have D2: "\<exists>v. okReadsOf (relayAddressCall exFactory exMerchant)
             (beforeWrite ''deployRelay'' (snd (snd ?D))) = [VString v]
          \<and> toLowerCase v = toLowerCase exProxy"
    using D(6,7) unfolding f mp by blast
  have M: "(\<exists>msg. fst ?M = Throw (newError msg)
                 \<and> sublist (addressMismatchMessage exOther exProxy) msg)
           \<and> (\<forall>fn. writesOf fn (snd (snd ?M)) = [])"
    using deploy_only_after_address_check[OF runM p] m1 m2 by blast
  then have M1: "\<exists>msg. fst ?M = Throw (newError msg)
                 \<and> sublist (addressMismatchMessage exOther exProxy) msg"
    and M2: "writesOf ''deployRelay'' (snd (snd ?M)) = []" by blast+
  show ?thesis
    by (intro conjI) (rule p d1 D1 D2 m1 m2 M1 M2)+
qed

section \<open>A relay that cannot be read\<close>

lemma afterProbe_absent_noMP:
  assumes "afterProbe l signer fa payouts proxy code w = (r, w', evs)" and "\<not> hasCode code"
  shows "KRead ''MERCHANT_PAYOUT'' \<notin> kinds evs"
  using afterProbe_absent_obs[OF assms] by (auto simp: trace_simps)

lemma resolveRelay_probe:
  assumes "resolveRelay l signer fa payouts payToAddr w = (r, w', evs)"
      and "KRead ''MERCHANT_PAYOUT'' \<in> kinds evs"
  shows "\<exists>proxy code rest. getAddress l payToAddr = Inr proxy
           \<and> evs = EGetCode proxy (Inr code) # rest \<and> hasCode code"
  using assms unfolding resolveRelay_def
proof (elim andThenE, goal_cases)
  case (1 x)
  then show ?case by (auto split: sum.splits)
next
  case (2 proxy w1 e1 e2 x)
  then show ?case by (auto dest!: getCodeOp_run split: sum.splits)
next
  case (3 proxy w1 e1 e2 code w2 e3 e4)
  have p: "getAddress l payToAddr = Inr proxy" "e1 = []" using 3(2) by (auto split: sum.splits)
  have g: "e3 = [EGetCode proxy (Inr code)]"
    using 3(4) by (auto dest!: getCodeOp_run split: sum.splits)
  have "hasCode code"
  proof (rule ccontr)
    assume "\<not> hasCode code"
    from afterProbe_absent_noMP[OF 3(5) this] show False using 3(1,3,6) p g by simp
  qed
  then show ?case using p g 3(3,6) by simp
qed

lemma kinds_reads:
  "okReads fn evs \<noteq> [] \<or> failedReads fn evs \<noteq> [] \<Longrightarrow> KRead fn \<in> kinds evs"
  using okReads_nokind failedReads_nokind by blast

text \<open>
  Claim C9.  In every run of \<open>settleWithRefundHelper\<close>:
  if a read of \<open>MERCHANT_PAYOUT\<close> fails with an error that is not a rate-limit error, the
  run returns \<open>null\<close>; if \<open>MERCHANT_PAYOUT\<close> was read, no read of \<open>ESCROW\<close> has succeeded
  and a read of \<open>ESCROW\<close> fails with an error that is not a rate-limit error, the run
  returns \<open>null\<close>.  \<open>MERCHANT_PAYOUT\<close> is read only when the existence probe found code:
  a trace with such a read has, as its second event, the code probe at the proxy address
  with an outcome that counts as deployed.
\<close>

theorem unreadable_relay_returns_null:
  assumes run: "settleWithRefundHelper l pp pr signer w = (res, w', evs)"
  shows "(\<forall>e. e \<in> set (failedReads ''MERCHANT_PAYOUT'' evs) \<and> \<not> isRateLimitError e
              \<longrightarrow> res = Return None)
       \<and> (\<forall>e. okReads ''MERCHANT_PAYOUT'' evs \<noteq> [] \<and> okReads ''ESCROW'' evs = []
              \<and> e \<in> set (failedReads ''ESCROW'' evs) \<and> \<not> isRateLimitError e
              \<longrightarrow> res = Return None)
       \<and> (okReads ''MERCHANT_PAYOUT'' evs \<noteq> [] \<or> failedReads ''MERCHANT_PAYOUT'' evs \<noteq> []
              \<longrightarrow> (\<exists>proxy code. getAddress l (payTo pr) = Inr proxy
                      \<and> 1 < length evs \<and> evs ! 1 = EGetCode proxy (Inr code) \<and> hasCode code))"
  using run
proof (cases rule: settle_cases_resolved)
  case notApplicable
  then show ?thesis by simp
next
  case (factory fa payouts e1 x)
  then show ?thesis by (auto dest!: phase_kinds simp: trace_simps)
next
  case (resolve fa payouts w1 e1 e2 x)
  have e1: "okReads ''MERCHANT_PAYOUT'' e1 = []" "failedReads ''MERCHANT_PAYOUT'' e1 = []"
    "okReads ''ESCROW'' e1 = []" "failedReads ''ESCROW'' e1 = []"
    using resolve(2) by (auto dest!: phase_kinds simp: trace_simps)
  have len1: "length e1 = 1"
    using resolve(2) unfolding checkFactory_def
    by (auto elim!: tryCatchE andThenE dest!: getCodeOp_run split: if_splits sum.splits)
  have probe: "okReads ''MERCHANT_PAYOUT'' e2 \<noteq> [] \<or> failedReads ''MERCHANT_PAYOUT'' e2 \<noteq> []
     \<longrightarrow> (\<exists>proxy code. getAddress l (payTo pr) = Inr proxy
            \<and> 1 < length evs \<and> evs ! 1 = EGetCode proxy (Inr code) \<and> hasCode code)"
  proof
    assume "okReads ''MERCHANT_PAYOUT'' e2 \<noteq> [] \<or> failedReads ''MERCHANT_PAYOUT'' e2 \<noteq> []"
    then have "KRead ''MERCHANT_PAYOUT'' \<in> kinds e2" by (rule kinds_reads)
    from resolveRelay_probe[OF resolve(3) this] obtain proxy code rest where
      "getAddress l (payTo pr) = Inr proxy" "e2 = EGetCode proxy (Inr code) # rest" "hasCode code"
      by blast
    then show "\<exists>proxy code. getAddress l (payTo pr) = Inr proxy
            \<and> 1 < length evs \<and> evs ! 1 = EGetCode proxy (Inr code) \<and> hasCode code"
      using resolve(5) len1 by (auto simp: nth_append)
  qed
  show ?thesis
    using resolveRelay_obs[OF resolve(3)] e1 resolve(4,5) probe by auto
next
  case (resolved fa payouts w1 e1 proxy' m esc w2 e2 rest)
  have e1: "okReads ''MERCHANT_PAYOUT'' e1 = []" "failedReads ''MERCHANT_PAYOUT'' e1 = []"
    using resolved(2) by (auto dest!: phase_kinds simp: trace_simps)
  have len1: "length e1 = 1"
    using resolved(2) unfolding checkFactory_def
    by (auto elim!: tryCatchE andThenE dest!: getCodeOp_run split: if_splits sum.splits)
  have rest: "okReads ''MERCHANT_PAYOUT'' rest = []" "failedReads ''MERCHANT_PAYOUT'' rest = []"
    using resolved(5) by (auto simp: trace_simps)
  have esc: "okReads ''ESCROW'' e2 = [VString esc]"
    using resolveRelay_ok[OF resolved(3)] by simp
  have probe: "okReads ''MERCHANT_PAYOUT'' e2 \<noteq> [] \<or> failedReads ''MERCHANT_PAYOUT'' e2 \<noteq> []
     \<longrightarrow> (\<exists>proxy code. getAddress l (payTo pr) = Inr proxy
            \<and> 1 < length evs \<and> evs ! 1 = EGetCode proxy (Inr code) \<and> hasCode code)"
  proof
    assume "okReads ''MERCHANT_PAYOUT'' e2 \<noteq> [] \<or> failedReads ''MERCHANT_PAYOUT'' e2 \<noteq> []"
    then have "KRead ''MERCHANT_PAYOUT'' \<in> kinds e2" by (rule kinds_reads)
    from resolveRelay_probe[OF resolved(3) this] obtain proxy code rest' where
      "getAddress l (payTo pr) = Inr proxy" "e2 = EGetCode proxy (Inr code) # rest'" "hasCode code"
      by blast
    then show "\<exists>proxy code. getAddress l (payTo pr) = Inr proxy
            \<and> 1 < length evs \<and> evs ! 1 = EGetCode proxy (Inr code) \<and> hasCode code"
      using resolved(4) len1 by (auto simp: nth_append)
  qed
  show ?thesis
    using resolveRelay_obs[OF resolved(3)] e1 rest esc resolved(4) probe by auto
qed

theorem unreadable_relay_returns_null_witness:
  "revertedError \<in> set (failedReads ''MERCHANT_PAYOUT''
      (snd (snd (settleWithRefundHelper exLib exPayload exRequirements
                   (stubSigner notARelayStub) ()))))
   \<and> \<not> isRateLimitError revertedError
   \<and> fst (settleWithRefundHelper exLib exPayload exRequirements (stubSigner notARelayStub) ())
       = Return None
   \<and> okReads ''MERCHANT_PAYOUT''
        (snd (snd (settleWithRefundHelper exLib exPayload exRequirements
                     (stubSigner noEscrowStub) ()))) \<noteq> []
   \<and> okReads ''ESCROW''
        (snd (snd (settleWithRefundHelper exLib exPayload exRequirements
                     (stubSigner noEscrowStub) ()))) = []
   \<and> revertedError \<in> set (failedReads ''ESCROW''
        (snd (snd (settleWithRefundHelper exLib exPayload exRequirements
                     (stubSigner noEscrowStub) ()))))
   \<and> fst (settleWithRefundHelper exLib exPayload exRequirements (stubSigner noEscrowStub) ())
       = Return None
   \<and> (\<exists>proxy code. getAddress exLib (payTo exRequirements) = Inr proxy
         \<and> snd (snd (settleWithRefundHelper exLib exPayload exRequirements
                        (stubSigner noEscrowStub) ())) ! 1 = EGetCode proxy (Inr code)
         \<and> hasCode code)"
proof -
  let ?A = "settleWithRefundHelper exLib exPayload exRequirements (stubSigner notARelayStub) ()"
  let ?B = "settleWithRefundHelper exLib exPayload exRequirements (stubSigner noEscrowStub) ()"
  have runA: "?A = (fst ?A, fst (snd ?A), snd (snd ?A))" by (simp only: prod.collapse)
  have runB: "?B = (fst ?B, fst (snd ?B), snd (snd ?B))" by (simp only: prod.collapse)
  have a1: "revertedError \<in> set (failedReads ''MERCHANT_PAYOUT'' (snd (snd ?A)))" by code_simp
  have a2: "\<not> isRateLimitError revertedError" by code_simp
  have b1: "okReads ''MERCHANT_PAYOUT'' (snd (snd ?B)) \<noteq> []" by code_simp
  have b2: "okReads ''ESCROW'' (snd (snd ?B)) = []" by code_simp
  have b3: "revertedError \<in> set (failedReads ''ESCROW'' (snd (snd ?B)))" by code_simp
  have A: "fst ?A = Return None"
    using unreadable_relay_returns_null[OF runA] a1 a2 by blast
  have B: "fst ?B = Return None"
    using unreadable_relay_returns_null[OF runB] b1 b2 b3 a2 by blast
  have P: "\<exists>proxy code. getAddress exLib (payTo exRequirements) = Inr proxy
         \<and> snd (snd ?B) ! 1 = EGetCode proxy (Inr code) \<and> hasCode code"
    using unreadable_relay_returns_null[OF runB] b1 by blast
  show ?thesis using a1 a2 A b1 b2 b3 B P by (intro conjI)
qed

section \<open>The retry policy of the deposit\<close>

lemma last_append_nonempty: "ys \<noteq> [] \<Longrightarrow> last (xs @ ys) = last ys"
  by simp



lemma writeCalls_append [simp]:
  "writeCalls fn (xs @ ys) = writeCalls fn xs @ writeCalls fn ys"
  by (induction fn xs rule: writeCalls.induct) auto







section \<open>A refund extension without a valid factory\<close>

text \<open>
  Claim C8 as stated fails: a payload whose refund extension names the factory
  \<open>0x1234\<close>, which is not an address, is answered with \<open>null\<close>; no error is raised.
\<close>

theorem invalid_factory_counterexample:
  "extractRefundInfo exLib badFactoryPayload exRequirements = None
   \<and> \<not> isAddress exLib ''0x1234''
   \<and> settleWithRefundHelper exLib badFactoryPayload exRequirements (stubSigner deployedStub) ()
       = (Return None, (), [])"
  by code_simp

text \<open>
  Claim C8, as the code has it.  When the payload carries a refund extension whose
  \<open>factoryAddress\<close> is missing, empty or not an address for \<open>isAddress\<close>,
  \<open>settleWithRefundHelper\<close> returns \<open>null\<close>, and it does so without any call to the
  signer: the trace is empty and the world unchanged.
\<close>

theorem invalid_factory_not_applicable:
  assumes "extensions pp = Some exts"
      and "exts REFUND_EXTENSION_KEY = Some ext"
      and "info ext = Some i"
      and "factoryAddress i = None \<or> factoryAddress i = Some []
           \<or> (\<exists>fa. factoryAddress i = Some fa \<and> \<not> isAddress l fa)"
  shows "settleWithRefundHelper l pp pr signer w = (Return None, w, [])"
proof -
  have "extractRefundInfo l pp pr = None"
    using assms by (auto simp: extractRefundInfo_def split: option.splits)
  then show ?thesis
    by (simp add: settleWithRefundHelper_def settleSteps_def preChecks_def andThen_def returnWith_def)
qed

theorem invalid_factory_not_applicable_witness:
  "extensions badFactoryPayload
     = Some [REFUND_EXTENSION_KEY \<mapsto>
               \<lparr>info = Some \<lparr>factoryAddress = Some ''0x1234'',
                              merchantPayouts = Some [exProxy \<mapsto> exMerchant]\<rparr>\<rparr>]
   \<and> \<not> isAddress exLib ''0x1234''
   \<and> settleWithRefundHelper exLib badFactoryPayload exRequirements driftingSigner False
       = (Return None, False, [])"
proof -
  let ?i = "\<lparr>factoryAddress = Some ''0x1234'', merchantPayouts = Some [exProxy \<mapsto> exMerchant]\<rparr>"
  let ?ext = "\<lparr>info = Some ?i\<rparr>"
  have e: "extensions badFactoryPayload = Some [REFUND_EXTENSION_KEY \<mapsto> ?ext]"
    by (simp add: badFactoryPayload_def)
  have k: "[REFUND_EXTENSION_KEY \<mapsto> ?ext] REFUND_EXTENSION_KEY = Some ?ext" by simp
  have i: "info ?ext = Some ?i" by simp
  have n: "\<not> isAddress exLib ''0x1234''" by code_simp
  have f: "factoryAddress ?i = None \<or> factoryAddress ?i = Some []
           \<or> (\<exists>fa. factoryAddress ?i = Some fa \<and> \<not> isAddress exLib fa)"
    using n by simp
  show ?thesis
    using invalid_factory_not_applicable[OF e k i f, of exRequirements driftingSigner False] e n
    by simp
qed

section \<open>The nonce check\<close>

text \<open>
  Claim C2 fails on the code.  On a deployed relay whose token reports the nonce of the
  authorization as used (the read of \<open>authorizationState\<close> succeeds and returns true), the
  run goes on to write \<open>executeDeposit\<close> and returns the successful response: the error
  thrown for a used nonce is caught by the empty \<open>catch\<close> block around the check.
\<close>

theorem used_nonce_still_deposits:
  "okReads ''authorizationState''
     (snd (snd (settleWithRefundHelper exLib exPayload exRequirements
                  (stubSigner deployedStub) ()))) = [VBool True]
   \<and> writesOf ''executeDeposit''
        (snd (snd (settleWithRefundHelper exLib exPayload exRequirements
                     (stubSigner deployedStub) ()))) = [Inr ''0xdead'']
   \<and> fst (settleWithRefundHelper exLib exPayload exRequirements (stubSigner deployedStub) ())
       = Return (Some \<lparr>success = True, transaction = ''0xdead'',
                        response_network = ''eip155:84532'', payer = exPayer\<rparr>)"
  by code_simp


section \<open>The decoding of revert data\<close>

lemma decodeRevertData_short:
  assumes "length d \<le> 202"
  shows "decodeRevertData d = None"
proof -
  have "jsSlice d 202 stop = []" for stop
    using assms by (simp add: jsSlice_def clampIndex_def Let_def)
  then show ?thesis
    by (simp add: decodeRevertData_def toStringUtf8_def Let_def)
qed

lemma abiErrorString_abc:
  "abiErrorString ''abc'' \<noteq> [] \<and> length (abiErrorString ''abc'') = 202"
  by code_simp

text \<open>
  Claim C7 fails on the code.  For the ABI encoding of \<open>Error("abc")\<close> in \<open>cause.data\<close>,
  the classifier decodes nothing: it reads the length from characters 138 to 202, where
  the bytes of the string are, and the string from character 202 on, where the data ends.
  No revert reason is attached, and the message of the error that is raised is the one
  for an unknown reason.
\<close>

theorem revert_data_not_decoded:
  "decodeRevertData (abiErrorString ''abc'') = None
   \<and> extractRevertReason abcRevertError = None
   \<and> executionFailureMessage abcRevertError
       = ''Failed to execute proxy.executeDeposit: ''
         @ noRevertReasonMessage ''The contract function executeDeposit reverted.''"
proof -
  have d: "decodeRevertData (abiErrorString ''abc'') = None"
    using abiErrorString_abc by (simp add: decodeRevertData_short)
  have r: "reasonFromCause abcRevertError = None"
    using d abiErrorString_abc
    by (simp add: reasonFromCause_def abcRevertError_def getProp_def)
  have e: "extractRevertReason abcRevertError = None"
    using r by (simp add: extractRevertReason_def abcRevertError_def getProp_def)
  have m: "errorMessageOf abcRevertError = ''The contract function executeDeposit reverted.''"
    by (simp add: abcRevertError_def getProp_def)
  show ?thesis
    using d e m by (simp add: executionFailureMessage_def)
qed

section \<open>The payouts map of \<open>withRefund\<close> and the lookup of the facilitator\<close>










lemma map_of_setKey: "map_of (setKey k v kvs) = (map_of kvs)(k \<mapsto> v)"
  by (induction kvs) (auto simp: fun_eq_iff)







lemma collectMerchantPayouts_sound:
  "collectMerchantPayouts l cx fa opts acc = Inr m \<Longrightarrow> map_of m k = Some v
   \<Longrightarrow> map_of acc k = Some v
       \<or> (\<exists>option\<in>set opts. \<exists>p. option_payTo option = StaticPayTo v
             \<and> computeRelayAddress l cx fa v = Inr p \<and> k = toLowerCase p)"
proof (induction opts arbitrary: acc)
  case Nil
  then show ?case by simp
next
  case (Cons option rest)
  show ?case
  proof (cases "option_payTo option")
    case DynamicPayTo
    then show ?thesis using Cons.IH[of acc] Cons.prems by auto
  next
    case (StaticPayTo mp)
    then obtain p where p: "computeRelayAddress l cx fa mp = Inr p"
        and r: "collectMerchantPayouts l cx fa rest (setKey (toLowerCase p) mp acc) = Inr m"
      using Cons.prems(1) by (auto split: sum.splits)
    from Cons.IH[OF r Cons.prems(2)] show ?thesis
      using StaticPayTo p by (auto simp: map_of_setKey split: if_splits)
  qed
qed

lemma collectMerchantPayouts_complete:
  "collectMerchantPayouts l cx fa opts acc = Inr m
   \<Longrightarrow> k \<in> dom (map_of acc)
       \<or> (\<exists>option\<in>set opts. \<exists>v p. option_payTo option = StaticPayTo v
             \<and> computeRelayAddress l cx fa v = Inr p \<and> k = toLowerCase p)
   \<Longrightarrow> k \<in> dom (map_of m)"
proof (induction opts arbitrary: acc)
  case Nil
  then show ?case by simp
next
  case (Cons option rest)
  show ?case
  proof (cases "option_payTo option")
    case DynamicPayTo
    then show ?thesis using Cons.IH[of acc] Cons.prems by auto
  next
    case (StaticPayTo mp)
    then obtain p where p: "computeRelayAddress l cx fa mp = Inr p"
        and r: "collectMerchantPayouts l cx fa rest (setKey (toLowerCase p) mp acc) = Inr m"
      using Cons.prems(1) by (auto split: sum.splits)
    show ?thesis
      by (rule Cons.IH[OF r]) (use Cons.prems(2) StaticPayTo p in \<open>auto simp: map_of_setKey\<close>)
  qed
qed




lemma all2_partner:
  "list_all2 P xs ys \<Longrightarrow> x \<in> set xs \<Longrightarrow> \<exists>y. (x, y) \<in> set (zip xs ys) \<and> P x y"
  by (induction rule: list_all2_induct) auto














end
